theory Spec2Isabelle
  imports
    Main
    "HOL-Library.Char_ord"
    "HOL-Library.List_Lexorder"
    "HOL-Library.Option_ord"
begin

section \<open>JavaScript values\<close>

text \<open>
  A value that may be \<^verbatim>\<open>undefined\<close> or \<^verbatim>\<open>null\<close> is an option; both are \<open>None\<close>.
  \<open>nullish a b\<close> is \<^verbatim>\<open>a ?? b\<close>, and \<open>truthy\<close> is the test \<^verbatim>\<open>if (s)\<close> on an optional
  string: absent and the empty string are false.  Strings are compared as JavaScript and
  SQLite (BINARY collation) compare them, lexicographically by character code.
\<close>

definition nullish :: "'a option \<Rightarrow> 'a option \<Rightarrow> 'a option" where
  "nullish a b = (case a of None \<Rightarrow> b | Some v \<Rightarrow> Some v)"

definition truthy :: "string option \<Rightarrow> bool" where
  "truthy s = (case s of None \<Rightarrow> False | Some v \<Rightarrow> v \<noteq> [])"

text \<open>
  A thrown JavaScript error: its \<^verbatim>\<open>code\<close> property, which may be a number, a string or
  absent, and its message.
\<close>

datatype err_code = NumCode int | StrCode string | NoCode

record js_error =
  code :: err_code
  message :: string

text \<open>\<^verbatim>\<open>Array.prototype.join\<close>.\<close>

fun join :: "string \<Rightarrow> string list \<Rightarrow> string" where
  "join sep [] = []"
| "join sep [t] = t"
| "join sep (t # u # ts) = t @ sep @ join sep (u # ts)"

text \<open>
  The three collections of a message (\<^verbatim>\<open>reactions\<close>, \<^verbatim>\<open>attachments\<close>, \<^verbatim>\<open>embeds\<close>) reach
  the store in several shapes, and \<^verbatim>\<open>upsertMessage\<close> tells them apart by the properties
  \<^verbatim>\<open>cache\<close>, \<^verbatim>\<open>map\<close> and \<^verbatim>\<open>length\<close>: the field is absent (\<^verbatim>\<open>undefined\<close> or \<^verbatim>\<open>null\<close>), a
  string (a row read back, or a plain record), an array (it has \<^verbatim>\<open>map\<close> and \<^verbatim>\<open>length\<close>), a
  discord.js \<^verbatim>\<open>Collection\<close> (a \<^verbatim>\<open>Map\<close> with \<^verbatim>\<open>map\<close> and \<^verbatim>\<open>size\<close> but no \<^verbatim>\<open>length\<close>), or
  a manager object whose \<^verbatim>\<open>cache\<close> is a collection (it has neither \<^verbatim>\<open>map\<close> nor
  \<^verbatim>\<open>length\<close>).  A discord.js message carries its reactions as a manager, its attachments
  as a collection and its embeds as an array.  Each element is given by the JSON text of
  the object that the callback of \<^verbatim>\<open>.map\<close> makes of it; \<open>stringify\<close> is
  \<^verbatim>\<open>JSON.stringify\<close> of the array of these objects.
\<close>

datatype js_collection =
    NoValue
  | StringValue string
  | ArrayValue "string list"
  | CollectionValue "string list"
  | ManagerValue "string list"

definition stringify :: "string list \<Rightarrow> string" where
  "stringify elems = ''['' @ join '','' elems @ '']''"

text \<open>
  What an expression hands to a parameter of a statement: \<^verbatim>\<open>null\<close>, a string, or an object
  (array, collection, manager).  better-sqlite3 binds \<^verbatim>\<open>null\<close> and strings and throws a
  TypeError on an object, before the statement runs.
\<close>

datatype js_value = JsNull | JsString string | JsObject

definition bind_error :: js_error where
  "bind_error = \<lparr>code = NoCode,
     message = ''SQLite3 can only bind numbers, strings, bigints, buffers, and null''\<rparr>"

definition bind :: "js_value \<Rightarrow> js_error + string option" where
  "bind v = (case v of JsNull \<Rightarrow> Inr None | JsString s \<Rightarrow> Inr (Some s) | JsObject \<Rightarrow> Inl bind_error)"

section \<open>The corpus store (src/storage/db.js)\<close>

subsection \<open>Tables\<close>

text \<open>
  The tables of \<^verbatim>\<open>migrate\<close> that the message path reads or writes.  A nullable column
  is an option.  The wall-clock columns \<^verbatim>\<open>updated_at\<close> and \<^verbatim>\<open>imported_at\<close> are left out.
  \<^verbatim>\<open>users\<close>, \<^verbatim>\<open>channels\<close> and \<^verbatim>\<open>import_cursors\<close> are keyed by their primary key;
  \<^verbatim>\<open>messages\<close> is the list of its rows in rowid order, and \<^verbatim>\<open>messages_fts\<close> the list of
  the documents that the index holds, each under the rowid it was inserted with.
\<close>

record user_row =
  username :: "string option"
  display_name :: "string option"
  discriminator :: "string option"
  is_bot :: int
  avatar :: "string option"

record channel_row =
  c_guild_id :: "string option"
  c_name :: "string option"
  c_type :: int
  c_topic :: "string option"
  c_parent_id :: "string option"
  c_position :: int

record message_row =
  m_rowid :: nat
  m_id :: string
  m_channel_id :: string
  m_guild_id :: "string option"
  m_author_id :: "string option"
  m_content :: "string option"
  m_thread_id :: "string option"
  m_reference_id :: "string option"
  m_reply_count :: "int option"
  m_reactions :: "string option"
  m_attachments :: "string option"
  m_embeds :: "string option"
  m_raw :: "string option"
  m_created_at :: "string option"
  m_edited_at :: "string option"

record fts_row =
  f_rowid :: nat
  content_text :: "string option"
  user_name :: string
  channel_name :: string

record cursor_row =
  oldest_id :: "string option"
  latest_id :: "string option"

record db =
  users :: "string \<rightharpoonup> user_row"
  channels :: "string \<rightharpoonup> channel_row"
  messages :: "message_row list"
  messages_fts :: "fts_row list"
  import_cursors :: "string \<rightharpoonup> cursor_row"

definition empty_db :: db where
  "empty_db = \<lparr>users = Map.empty, channels = Map.empty, messages = [],
     messages_fts = [], import_cursors = Map.empty\<rparr>"

subsection \<open>Objects handed to the upsert helpers\<close>

text \<open>
  The helpers accept several spellings of a field and fall back from one to the next.
  The raw snapshot of a message is carried as the text that \<^verbatim>\<open>JSON.stringify\<close> makes of
  it.  \<open>msg_createdAt\<close> and \<open>msg_editedAt\<close> hold the ISO string of the \<^verbatim>\<open>Date\<close> object when
  there is one.  The channel id is the argument that every caller passes (\<^verbatim>\<open>channel.id\<close>,
  \<^verbatim>\<open>message.channelId\<close>), so the fallbacks behind it are never reached.
\<close>

record js_user =
  user_id :: string
  user_username :: "string option"
  user_name' :: "string option"
  user_displayName :: "string option"
  user_display_name :: "string option"
  user_globalName :: "string option"
  user_discriminator :: "string option"
  user_bot :: bool
  user_is_bot :: bool
  user_avatar :: "string option"

record js_channel =
  ch_id :: string
  ch_guildId :: "string option"
  ch_guild_id :: "string option"
  ch_name :: "string option"
  ch_type :: "int option"
  ch_topic :: "string option"
  ch_parentId :: "string option"
  ch_parent_id :: "string option"
  ch_position :: "int option"
  ch_rawPosition :: "int option"

record js_thread =
  thread_id :: "string option"
  thread_messageCount :: "int option"

record js_message =
  msg_id :: string
  msg_guildId :: "string option"
  msg_guild_id :: "string option"
  msg_author :: "js_user option"
  msg_author_id :: "string option"
  msg_content :: "string option"
  msg_thread :: "js_thread option"
  msg_thread_id :: "string option"
  msg_reference_messageId :: "string option"
  msg_reference_id :: "string option"
  msg_reply_count :: "int option"
  msg_reactions :: js_collection
  msg_attachments :: js_collection
  msg_embeds :: js_collection
  msg_raw :: string
  msg_createdAt :: "string option"
  msg_created_at :: "string option"
  msg_editedAt :: "string option"
  msg_edited_at :: "string option"

subsection \<open>Upsert helpers\<close>

definition upsertUser :: "db \<Rightarrow> js_user \<Rightarrow> db" where
  "upsertUser d user =
     d\<lparr>users := (users d)(user_id user \<mapsto>
        \<lparr>username = nullish (nullish (user_username user) (user_name' user)) (Some ''''),
         display_name = nullish (nullish (nullish (user_displayName user)
                           (user_display_name user)) (user_globalName user)) (Some ''''),
         discriminator = nullish (user_discriminator user) (Some ''0''),
         is_bot = (if user_bot user then 1 else if user_is_bot user then 1 else 0),
         avatar = nullish (user_avatar user) (Some '''')\<rparr>)\<rparr>"

definition upsertChannel :: "db \<Rightarrow> js_channel \<Rightarrow> db" where
  "upsertChannel d ch =
     d\<lparr>channels := (channels d)(ch_id ch \<mapsto>
        \<lparr>c_guild_id = nullish (ch_guildId ch) (ch_guild_id ch),
         c_name = nullish (ch_name ch) (Some ''''),
         c_type = (case ch_type ch of None \<Rightarrow> 0 | Some t \<Rightarrow> t),
         c_topic = nullish (ch_topic ch) (Some ''''),
         c_parent_id = nullish (nullish (ch_parentId ch) (ch_parent_id ch)) (Some ''''),
         c_position = (case nullish (ch_position ch) (ch_rawPosition ch) of
                         None \<Rightarrow> 0 | Some p \<Rightarrow> p)\<rparr>)\<rparr>"

text \<open>
  The trigger \<^verbatim>\<open>messages_ai\<close>, AFTER INSERT ON messages: the document indexed for the new
  row.  A scalar subquery without a row is NULL, and COALESCE takes the first value that is
  not NULL.
\<close>

definition messages_ai :: "db \<Rightarrow> message_row \<Rightarrow> fts_row" where
  "messages_ai d new =
     \<lparr>f_rowid = m_rowid new,
      content_text = m_content new,
      user_name =
        (let u = (case m_author_id new of None \<Rightarrow> None | Some a \<Rightarrow> users d a) in
         case nullish (Option.bind u display_name) (Option.bind u username) of
           None \<Rightarrow> '''' | Some n \<Rightarrow> n),
      channel_name =
        (case Option.bind (channels d (m_channel_id new)) c_name of
           None \<Rightarrow> '''' | Some n \<Rightarrow> n)\<rparr>"

text \<open>
  The three expressions of \<^verbatim>\<open>upsertMessage\<close> for the collections.

  \<^item> \<^verbatim>\<open>msg.reactions?.cache ? JSON.stringify(msg.reactions.cache.map(...)) : (msg.reactions ?? null)\<close>:
    only a manager has a \<^verbatim>\<open>cache\<close>; everything else is handed on as it is.
  \<^item> \<^verbatim>\<open>msg.attachments?.map ? JSON.stringify(msg.attachments.map(...)) : (msg.attachments ?? null)\<close>:
    arrays and collections have \<^verbatim>\<open>map\<close>.
  \<^item> \<^verbatim>\<open>msg.embeds?.length ? JSON.stringify(msg.embeds.map(...)) : (msg.embeds ?? null)\<close>:
    the length of an empty array or an empty string is 0, which is false, so the value is
    handed on as it is; a string that is not empty has a length and no \<^verbatim>\<open>map\<close>, and the
    call throws a TypeError.
\<close>

definition reactions_expr :: "js_collection \<Rightarrow> js_value" where
  "reactions_expr v =
     (case v of
        NoValue \<Rightarrow> JsNull
      | StringValue s \<Rightarrow> JsString s
      | ArrayValue elems \<Rightarrow> JsObject
      | CollectionValue elems \<Rightarrow> JsObject
      | ManagerValue elems \<Rightarrow> JsString (stringify elems))"

definition attachments_expr :: "js_collection \<Rightarrow> js_value" where
  "attachments_expr v =
     (case v of
        NoValue \<Rightarrow> JsNull
      | StringValue s \<Rightarrow> JsString s
      | ArrayValue elems \<Rightarrow> JsString (stringify elems)
      | CollectionValue elems \<Rightarrow> JsString (stringify elems)
      | ManagerValue elems \<Rightarrow> JsObject)"

definition embeds_map_error :: js_error where
  "embeds_map_error = \<lparr>code = NoCode, message = ''msg.embeds.map is not a function''\<rparr>"

definition embeds_expr :: "js_collection \<Rightarrow> js_error + js_value" where
  "embeds_expr v =
     (case v of
        NoValue \<Rightarrow> Inr JsNull
      | StringValue s \<Rightarrow> (if s = [] then Inr (JsString s) else Inl embeds_map_error)
      | ArrayValue elems \<Rightarrow> (if elems = [] then Inr JsObject else Inr (JsString (stringify elems)))
      | CollectionValue elems \<Rightarrow> Inr JsObject
      | ManagerValue elems \<Rightarrow> Inr JsObject)"

text \<open>
  The values bound to the statement of \<^verbatim>\<open>upsertMessage\<close>, as the row they would insert
  under rowid \<open>rid\<close>.  The object of the parameters is built first (an expression that
  throws ends the call there); then the parameters are bound, and an object among them
  makes \<^verbatim>\<open>run\<close> throw.
\<close>

definition message_params ::
  "js_message \<Rightarrow> string \<Rightarrow> string option \<Rightarrow> nat \<Rightarrow> js_error + message_row" where
  "message_params msg channelId guildId rid =
     (case embeds_expr (msg_embeds msg) of
        Inl err \<Rightarrow> Inl err
      | Inr embeds \<Rightarrow>
          (case bind (reactions_expr (msg_reactions msg)) of
             Inl err \<Rightarrow> Inl err
           | Inr r \<Rightarrow>
               (case bind (attachments_expr (msg_attachments msg)) of
                  Inl err \<Rightarrow> Inl err
                | Inr a \<Rightarrow>
                    (case bind embeds of
                       Inl err \<Rightarrow> Inl err
                     | Inr e \<Rightarrow>
                         Inr \<lparr>m_rowid = rid,
                              m_id = msg_id msg,
                              m_channel_id = channelId,
                              m_guild_id = nullish (nullish guildId (msg_guildId msg)) (msg_guild_id msg),
                              m_author_id = nullish (map_option user_id (msg_author msg))
                                              (msg_author_id msg),
                              m_content = nullish (msg_content msg) (Some ''''),
                              m_thread_id = nullish (Option.bind (msg_thread msg) thread_id)
                                              (msg_thread_id msg),
                              m_reference_id = nullish (msg_reference_messageId msg)
                                                 (msg_reference_id msg),
                              m_reply_count = nullish (nullish (Option.bind (msg_thread msg)
                                                 thread_messageCount) (msg_reply_count msg)) (Some 0),
                              m_reactions = r,
                              m_attachments = a,
                              m_embeds = e,
                              m_raw = Some (msg_raw msg),
                              m_created_at = nullish (msg_createdAt msg) (msg_created_at msg),
                              m_edited_at = nullish (msg_editedAt msg) (msg_edited_at msg)\<rparr>))))"

text \<open>
  The DO UPDATE SET clause: the columns it names take the values of the rejected row
  (\<^verbatim>\<open>excluded\<close>), every other column keeps its value.
\<close>

definition do_update_set :: "message_row \<Rightarrow> message_row \<Rightarrow> message_row" where
  "do_update_set excluded r =
     r\<lparr>m_content := m_content excluded,
       m_reply_count := m_reply_count excluded,
       m_reactions := m_reactions excluded,
       m_attachments := m_attachments excluded,
       m_embeds := m_embeds excluded,
       m_raw := m_raw excluded,
       m_edited_at := m_edited_at excluded\<rparr>"

text \<open>
  A table without an INTEGER PRIMARY KEY gives a new row the rowid one above the largest
  in use, and 1 when it is empty.
\<close>

definition next_rowid :: "message_row list \<Rightarrow> nat" where
  "next_rowid rows = fold max (map m_rowid rows) 0 + 1"

text \<open>
  The statement of \<^verbatim>\<open>upsertMessage\<close>, INSERT ... ON CONFLICT(id) DO UPDATE, run with the
  row \<open>new\<close> bound.  When a row with the id exists the statement is an update of that row,
  and the schema has no trigger on update; when none exists the row is inserted and
  \<^verbatim>\<open>messages_ai\<close> fires.
\<close>

definition insert_or_update :: "db \<Rightarrow> message_row \<Rightarrow> db" where
  "insert_or_update d new =
     (if \<exists>r \<in> set (messages d). m_id r = m_id new
      then d\<lparr>messages :=
               map (\<lambda>r. if m_id r = m_id new then do_update_set new r else r) (messages d)\<rparr>
      else d\<lparr>messages := messages d @ [new],
             messages_fts := messages_fts d @ [messages_ai d new]\<rparr>)"

text \<open>
  \<^verbatim>\<open>upsertMessage\<close>.  A call that throws has written nothing: the store is the one the
  caller passed.
\<close>

definition upsertMessage :: "db \<Rightarrow> js_message \<Rightarrow> string \<Rightarrow> string option \<Rightarrow> js_error + db" where
  "upsertMessage d msg channelId guildId =
     (case message_params msg channelId guildId (next_rowid (messages d)) of
        Inl err \<Rightarrow> Inl err
      | Inr new \<Rightarrow> Inr (insert_or_update d new))"

subsection \<open>Import cursor helpers\<close>

definition getImportCursor :: "db \<Rightarrow> string \<Rightarrow> string option" where
  "getImportCursor d channelId = Option.bind (import_cursors d channelId) latest_id"

definition setImportCursor :: "db \<Rightarrow> string \<Rightarrow> string option \<Rightarrow> db" where
  "setImportCursor d channelId latestId =
     d\<lparr>import_cursors := (import_cursors d)(channelId \<mapsto>
        (case import_cursors d channelId of
           None \<Rightarrow> \<lparr>oldest_id = None, latest_id = latestId\<rparr>
         | Some c \<Rightarrow> c\<lparr>latest_id := latestId\<rparr>))\<rparr>"

text \<open>The primary key of \<^verbatim>\<open>messages\<close>: no two rows share an id.\<close>

definition pk_messages :: "db \<Rightarrow> bool" where
  "pk_messages d = distinct (map m_id (messages d))"

text \<open>The rows stored under a message id.\<close>

definition rows_of :: "db \<Rightarrow> string \<Rightarrow> message_row list" where
  "rows_of d i = filter (\<lambda>r. m_id r = i) (messages d)"

subsection \<open>Query helpers: full-text search\<close>

text \<open>
  \<^verbatim>\<open>searchMessages\<close> first rewrites the query text.  \<open>strip_special\<close> is
  \<^verbatim>\<open>.replace(/[^a-zA-Z0-9\s]/g, ' ')\<close>, \<open>split_ws\<close> is \<^verbatim>\<open>.split(/\s+/)\<close> (a leading or
  trailing run of whitespace leaves an empty first or last piece, and the empty string
  splits into one empty piece), \<open>quote\<close> wraps a token in double quotes and the tokens are
  joined with \<^verbatim>\<open>.join(' OR ')\<close>.  The class \<^verbatim>\<open>\s\<close> is modelled by its ASCII members; every other
  character that is not a letter or digit becomes a space, so it ends a token either way.
\<close>

definition is_alnum :: "char \<Rightarrow> bool" where
  "is_alnum c = ((CHR ''a'' \<le> c \<and> c \<le> CHR ''z'') \<or> (CHR ''A'' \<le> c \<and> c \<le> CHR ''Z'')
                 \<or> (CHR ''0'' \<le> c \<and> c \<le> CHR ''9''))"

definition is_space :: "char \<Rightarrow> bool" where
  "is_space c = (c = CHR '' '' \<or> c = CHR 0x09 \<or> c = CHR 0x0A \<or> c = CHR 0x0B
                 \<or> c = CHR 0x0C \<or> c = CHR 0x0D)"

definition strip_special :: "string \<Rightarrow> string" where
  "strip_special q = map (\<lambda>c. if is_alnum c \<or> is_space c then c else CHR '' '') q"

fun split_go :: "bool \<Rightarrow> string \<Rightarrow> string \<Rightarrow> string list" where
  "split_go insep cur [] = [rev cur]"
| "split_go insep cur (c # cs) =
     (if is_space c
      then (if insep then split_go True cur cs else rev cur # split_go True [] cs)
      else split_go False (c # cur) cs)"

definition split_ws :: "string \<Rightarrow> string list" where
  "split_ws s = split_go False [] s"

definition query_tokens :: "string \<Rightarrow> string list" where
  "query_tokens q = filter (\<lambda>t. t \<noteq> []) (split_ws (strip_special q))"

definition quote :: "string \<Rightarrow> string" where
  "quote t = CHR 0x22 # t @ [CHR 0x22]"

definition sanitize :: "string \<Rightarrow> string" where
  "sanitize q = join '' OR '' (map quote (query_tokens q))"

text \<open>
  The index is an FTS5 table with the tokenizer \<^verbatim>\<open>porter unicode61\<close>.  \<open>unicode61\<close> models
  that tokenizer on ASCII text: the terms of a text are its maximal runs of letters and
  digits, in lower case.  The Porter stemmer that runs on each term is a parameter,
  \<open>stem\<close>.  A quoted string of the MATCH expression is a phrase: it matches a document when
  its terms occur next to each other, in order, in one of the three indexed columns; the
  expression that \<open>sanitize\<close> builds is the disjunction of its phrases.
\<close>

definition lower :: "char \<Rightarrow> char" where
  "lower c = (if CHR ''A'' \<le> c \<and> c \<le> CHR ''Z'' then char_of (of_char c + (32::nat)) else c)"

fun runs :: "string \<Rightarrow> string \<Rightarrow> string list" where
  "runs cur [] = (if cur = [] then [] else [rev cur])"
| "runs cur (c # cs) =
     (if is_alnum c then runs (lower c # cur) cs
      else (if cur = [] then runs [] cs else rev cur # runs [] cs))"

definition unicode61 :: "string \<Rightarrow> string list" where
  "unicode61 s = runs [] s"

definition fts_terms :: "(string \<Rightarrow> string) \<Rightarrow> string \<Rightarrow> string list" where
  "fts_terms stem s = map stem (unicode61 s)"

fun is_infix :: "'a list \<Rightarrow> 'a list \<Rightarrow> bool" where
  "is_infix xs [] = (xs = [])"
| "is_infix xs (y # ys) = (take (length xs) (y # ys) = xs \<or> is_infix xs ys)"

definition phrase_matches :: "(string \<Rightarrow> string) \<Rightarrow> string \<Rightarrow> fts_row \<Rightarrow> bool" where
  "phrase_matches stem t doc =
     (fts_terms stem t \<noteq> [] \<and>
      list_ex (\<lambda>col. is_infix (fts_terms stem t) (fts_terms stem col))
        [(case content_text doc of None \<Rightarrow> [] | Some c \<Rightarrow> c), user_name doc, channel_name doc])"

definition fts_match :: "(string \<Rightarrow> string) \<Rightarrow> string list \<Rightarrow> fts_row \<Rightarrow> bool" where
  "fts_match stem tokens doc = list_ex (\<lambda>t. phrase_matches stem t doc) tokens"

text \<open>
  The options of \<^verbatim>\<open>searchMessages\<close> and the rows it returns.  The option \<^verbatim>\<open>limit\<close> is
  \<^verbatim>\<open>undefined\<close>, \<^verbatim>\<open>null\<close> or a number, and a number is an integer or not (a fraction,
  \<^verbatim>\<open>NaN\<close>, an infinity).  A row carries the message row it was joined from and the columns
  of the LEFT JOINs on users and channels (the join on guilds is left out, as the guilds
  table is); \<open>None\<close> is NULL.
\<close>

datatype js_limit = LimitUndefined | LimitNull | LimitInteger int | LimitNotInteger

record search_opts =
  so_limit :: js_limit
  so_channelId :: "string option"
  so_guildId :: "string option"
  so_userId :: "string option"
  so_before :: "string option"
  so_after :: "string option"

record joined_row =
  j_message :: message_row
  j_user_display_name :: "string option"
  j_user_name :: "string option"
  j_channel_name :: "string option"

definition join_names :: "db \<Rightarrow> message_row \<Rightarrow> joined_row" where
  "join_names d m =
     (let u = (case m_author_id m of None \<Rightarrow> None | Some a \<Rightarrow> users d a)
      in \<lparr>j_message = m,
          j_user_display_name = Option.bind u display_name,
          j_user_name = Option.bind u username,
          j_channel_name = Option.bind (channels d (m_channel_id m)) c_name\<rparr>)"

text \<open>A comparison with NULL is not true, so the row is not selected.\<close>

definition sql_lt :: "string option \<Rightarrow> string option \<Rightarrow> bool" where
  "sql_lt a b = (case (a, b) of (Some x, Some y) \<Rightarrow> x < y | _ \<Rightarrow> False)"

definition sql_le :: "string option \<Rightarrow> string option \<Rightarrow> bool" where
  "sql_le a b = (case (a, b) of (Some x, Some y) \<Rightarrow> x \<le> y | _ \<Rightarrow> False)"

definition search_where :: "search_opts \<Rightarrow> message_row \<Rightarrow> bool" where
  "search_where opts m =
     ((truthy (so_channelId opts) \<longrightarrow> Some (m_channel_id m) = so_channelId opts)
      \<and> (truthy (so_guildId opts) \<longrightarrow> m_guild_id m = so_guildId opts)
      \<and> (truthy (so_userId opts) \<longrightarrow> m_author_id m = so_userId opts)
      \<and> (truthy (so_before opts) \<longrightarrow> sql_lt (m_created_at m) (so_before opts))
      \<and> (truthy (so_after opts) \<longrightarrow> sql_lt (so_after opts) (m_created_at m)))"

text \<open>
  LIMIT: a negative limit is no limit.  The value bound to LIMIT must be an integer, or a
  number that converts to a 64-bit integer without loss; for \<^verbatim>\<open>null\<close>, a number that is
  not an integer, and a number outside that range the statement fails with
  SQLITE_MISMATCH.
\<close>

definition sql_limit :: "int \<Rightarrow> 'a list \<Rightarrow> 'a list" where
  "sql_limit n xs = (if n < 0 then xs else take (nat n) xs)"

definition mismatch_error :: js_error where
  "mismatch_error = \<lparr>code = StrCode ''SQLITE_MISMATCH'', message = ''datatype mismatch''\<rparr>"

definition bind_limit :: "js_limit \<Rightarrow> js_error + int" where
  "bind_limit l =
     (case l of
        LimitUndefined \<Rightarrow> Inr 25
      | LimitNull \<Rightarrow> Inl mismatch_error
      | LimitInteger n \<Rightarrow>
          (if - (2 ^ 63) < n \<and> n < 2 ^ 63 then Inr n else Inl mismatch_error)
      | LimitNotInteger \<Rightarrow> Inl mismatch_error)"

text \<open>
  The SELECT of \<^verbatim>\<open>searchMessages\<close> up to its ORDER BY: the documents of the index that
  match the expression, by rank, each joined with the message row of its rowid that passes
  the filters.  \<open>rank\<close> is the relevance score of the index (the hidden column \<^verbatim>\<open>rank\<close>), a
  parameter like the stemmer; rows of equal rank keep the order of the index.
\<close>

definition search_select ::
  "(string \<Rightarrow> string) \<Rightarrow> (fts_row \<Rightarrow> 'r::linorder) \<Rightarrow> db \<Rightarrow> string list \<Rightarrow> search_opts
     \<Rightarrow> joined_row list" where
  "search_select stem rank d tokens opts =
     concat (map (\<lambda>doc. map (join_names d)
                    (filter (\<lambda>m. m_rowid m = f_rowid doc \<and> search_where opts m) (messages d)))
       (sort_key rank (filter (fts_match stem tokens) (messages_fts d))))"

text \<open>
  \<^verbatim>\<open>searchMessages\<close>.  An absent query makes \<^verbatim>\<open>query.replace\<close> throw a TypeError.  The
  default 25 of \<^verbatim>\<open>limit\<close> stands in for \<^verbatim>\<open>undefined\<close> only.  A query without a token
  returns before any statement is prepared.
\<close>

definition searchMessages ::
  "(string \<Rightarrow> string) \<Rightarrow> (fts_row \<Rightarrow> 'r::linorder) \<Rightarrow> db \<Rightarrow> string option \<Rightarrow> search_opts
     \<Rightarrow> js_error + joined_row list" where
  "searchMessages stem rank d query opts =
     (case query of
        None \<Rightarrow> Inl \<lparr>code = NoCode, message = ''TypeError''\<rparr>
      | Some q \<Rightarrow>
          (let sanitized = sanitize q
           in if sanitized = [] then Inr []
              else (case bind_limit (so_limit opts) of
                      Inl err \<Rightarrow> Inl err
                    | Inr limit \<Rightarrow>
                        Inr (sql_limit limit (search_select stem rank d (query_tokens q) opts)))))"

subsection \<open>Query helpers: context window\<close>

text \<open>
  The scalar subqueries of \<^verbatim>\<open>getContext\<close>: the created-at values of the channel on one
  side of the target, in the order asked for, and of these the one at OFFSET \<open>half\<close> (a
  negative OFFSET counts as zero).  A subquery without a row is NULL.
\<close>

definition channel_times :: "db \<Rightarrow> string \<Rightarrow> string list" where
  "channel_times d channelId =
     List.map_filter (\<lambda>m. if m_channel_id m = channelId then m_created_at m else None)
       (messages d)"

definition limit1_offset :: "int \<Rightarrow> 'a list \<Rightarrow> 'a option" where
  "limit1_offset off xs = (case drop (nat off) xs of [] \<Rightarrow> None | x # _ \<Rightarrow> Some x)"

definition lower_bound :: "db \<Rightarrow> string \<Rightarrow> string option \<Rightarrow> int \<Rightarrow> string option" where
  "lower_bound d channelId targetTs half =
     limit1_offset half
       (rev (sort (filter (\<lambda>t. sql_le (Some t) targetTs) (channel_times d channelId))))"

definition upper_bound :: "db \<Rightarrow> string \<Rightarrow> string option \<Rightarrow> int \<Rightarrow> string option" where
  "upper_bound d channelId targetTs half =
     limit1_offset half
       (sort (filter (\<lambda>t. sql_le targetTs (Some t)) (channel_times d channelId)))"

text \<open>
  \<^verbatim>\<open>getContext\<close>.  \<open>windowSize div 2\<close> is \<^verbatim>\<open>Math.floor(windowSize / 2)\<close>.  The target is
  looked up by id alone.  \<^verbatim>\<open>x BETWEEN a AND b\<close> is \<^verbatim>\<open>a <= x AND x <= b\<close>.  ORDER BY
  created_at ASC puts NULL first, as the order on options does; rows of equal created-at
  keep the order of the table.
\<close>

definition getContext :: "db \<Rightarrow> string \<Rightarrow> string \<Rightarrow> int \<Rightarrow> joined_row list" where
  "getContext d channelId messageId windowSize =
     (let half = windowSize div 2
      in case find (\<lambda>m. m_id m = messageId) (messages d) of
           None \<Rightarrow> []
         | Some target \<Rightarrow>
             (let targetTs = m_created_at target;
                  lo = lower_bound d channelId targetTs half;
                  hi = upper_bound d channelId targetTs half
              in map (join_names d)
                   (sort_key m_created_at
                      (filter (\<lambda>m. m_channel_id m = channelId
                                    \<and> sql_le lo (m_created_at m) \<and> sql_le (m_created_at m) hi)
                         (messages d)))))"

section \<open>The importer (src/history/index.js)\<close>

subsection \<open>Rate limiter\<close>

text \<open>
  \<^verbatim>\<open>createRateLimiter\<close> keeps one variable, \<^verbatim>\<open>next\<close> (here \<open>nextTime\<close>), in milliseconds as
  \<^verbatim>\<open>Date.now()\<close> gives them.  \<^verbatim>\<open>acquire\<close> is an async function with one \<^verbatim>\<open>await\<close>: JavaScript
  runs it to that point without interruption, and runs the rest, again without
  interruption, when the timer has fired.  \<open>acquire_enter\<close> is the part before the
  \<^verbatim>\<open>await\<close>: it answers with the time to sleep, or goes on to the last statement at once.
  \<open>acquire_finish\<close> is the last statement, at the clock reading \<open>now\<close>.
\<close>

record limiter =
  intervalMs :: int
  nextTime :: int

definition createRateLimiter :: "int \<Rightarrow> int \<Rightarrow> limiter" where
  "createRateLimiter interval now = \<lparr>intervalMs = interval, nextTime = now\<rparr>"

definition acquire_finish :: "int \<Rightarrow> limiter \<Rightarrow> limiter" where
  "acquire_finish now l = l\<lparr>nextTime := max now (nextTime l) + intervalMs l\<rparr>"

definition acquire_enter :: "int \<Rightarrow> limiter \<Rightarrow> int option \<times> limiter" where
  "acquire_enter now l =
     (if now < nextTime l then (Some (nextTime l - now), l) else (None, acquire_finish now l))"

text \<open>
  An \<^verbatim>\<open>acquire()\<close> that runs alone: called at \<open>now\<close>, and when it sleeps, woken \<open>late\<close>
  milliseconds after the timer is due, with no other caller in between.  The result is the
  time at which the call completes and the limiter it leaves.
\<close>

definition acquire_alone :: "int \<Rightarrow> int \<Rightarrow> limiter \<Rightarrow> int \<times> limiter" where
  "acquire_alone now late l =
     (case acquire_enter now l of
        (None, l') \<Rightarrow> (now, l')
      | (Some ms, l') \<Rightarrow> (now + ms + late, acquire_finish (now + ms + late) l'))"

text \<open>
  The event loop around one limiter.  \<open>Call c t\<close>: caller \<open>c\<close> calls \<^verbatim>\<open>acquire()\<close> at time
  \<open>t\<close>.  \<open>Wake c t\<close>: the timer of the sleeping caller \<open>c\<close> fires at time \<open>t\<close>, not before
  it is due, and the caller's \<^verbatim>\<open>acquire()\<close> completes.  \<open>grants\<close> lists the completed calls
  with the time of completion.  A schedule that wakes a caller who does not sleep, wakes
  one too early, or moves the clock backwards, is not a run of the program (\<open>None\<close>).
\<close>

datatype event = Call nat int | Wake nat int

record sim =
  lim :: limiter
  clock :: int
  sleepers :: "(nat \<times> int) list"
  grants :: "(nat \<times> int) list"

definition sim_init :: "int \<Rightarrow> int \<Rightarrow> sim" where
  "sim_init interval now =
     \<lparr>lim = createRateLimiter interval now, clock = now, sleepers = [], grants = []\<rparr>"

fun sim_step :: "event \<Rightarrow> sim \<Rightarrow> sim option" where
  "sim_step (Call c t) s =
     (if t < clock s then None
      else (case acquire_enter t (lim s) of
              (None, l) \<Rightarrow> Some (s\<lparr>lim := l, clock := t, grants := grants s @ [(c, t)]\<rparr>)
            | (Some ms, l) \<Rightarrow>
                Some (s\<lparr>lim := l, clock := t, sleepers := sleepers s @ [(c, t + ms)]\<rparr>)))"
| "sim_step (Wake c t) s =
     (case map_of (sleepers s) c of
        None \<Rightarrow> None
      | Some due \<Rightarrow>
          (if t < due \<or> t < clock s then None
           else Some (s\<lparr>lim := acquire_finish t (lim s), clock := t,
                        sleepers := filter (\<lambda>p. fst p \<noteq> c) (sleepers s),
                        grants := grants s @ [(c, t)]\<rparr>)))"

fun sim_run :: "event list \<Rightarrow> sim \<Rightarrow> sim option" where
  "sim_run [] s = Some s"
| "sim_run (e # es) s = (case sim_step e s of None \<Rightarrow> None | Some s' \<Rightarrow> sim_run es s')"

subsection \<open>Bounded task runner\<close>












subsection \<open>Backfill of one channel\<close>

text \<open>
  The remote source is a script: the list of the answers that the successive calls of
  \<^verbatim>\<open>channel.messages.fetch\<close> get, each as a function of the options of the call.  An answer
  is a thrown error or a page of messages.  The loop of \<^verbatim>\<open>importChannel\<close> may go on for as
  long as full pages arrive and are stored; a run that is still fetching when the script
  ends has not returned (\<open>None\<close>).  The rate limiter only delays the calls and is left out
  here.
\<close>

definition PAGE_SIZE :: nat where
  "PAGE_SIZE = 100"

record fetch_opts =
  fo_limit :: nat
  fo_after :: "string option"
  fo_before :: "string option"

type_synonym fetch = "fetch_opts \<Rightarrow> js_error + js_message list"

text \<open>The lines written through \<^verbatim>\<open>log\<close>, by template and arguments.\<close>

datatype log_line =
    LogImporting string string
  | LogMissingAccess string
  | LogImported nat string
  | LogTimeout string
  | LogError string string

definition label :: "js_channel \<Rightarrow> string" where
  "label channel = CHR ''#'' # (case ch_name channel of None \<Rightarrow> ''undefined'' | Some n \<Rightarrow> n)"

record import_state =
  st_db :: db
  st_log :: "log_line list"
  msgCount :: nat
  latestId :: "string option"
  lastId :: "string option"

text \<open>
  The body of the page transaction: each message is upserted, then its author when it has
  one.  The result is the error thrown, if one is, and the store as the body leaves it:
  when \<^verbatim>\<open>upsertMessage\<close> throws, the messages before are written and the rest is not
  reached.
\<close>

fun page_body :: "string \<Rightarrow> string option \<Rightarrow> js_message list \<Rightarrow> db \<Rightarrow> js_error option \<times> db" where
  "page_body channelId guildId [] d = (None, d)"
| "page_body channelId guildId (msg # rest) d =
     (case upsertMessage d msg channelId guildId of
        Inl err \<Rightarrow> (Some err, d)
      | Inr d1 \<Rightarrow>
          page_body channelId guildId rest
            (case msg_author msg of None \<Rightarrow> d1 | Some a \<Rightarrow> upsertUser d1 a))"

text \<open>
  \<^verbatim>\<open>db.transaction(body)()\<close>: when the body returns, its writes are committed; when it
  throws, they are rolled back, the store is the one before the transaction, and the error
  is thrown on.
\<close>

definition transaction :: "(db \<Rightarrow> js_error option \<times> db) \<Rightarrow> db \<Rightarrow> js_error option \<times> db" where
  "transaction body d =
     (case body d of (None, d') \<Rightarrow> (None, d') | (Some err, d') \<Rightarrow> (Some err, d))"

text \<open>One page stored in one transaction.\<close>

definition storePage ::
  "db \<Rightarrow> js_message list \<Rightarrow> string \<Rightarrow> string option \<Rightarrow> js_error option \<times> db" where
  "storePage d msgArray channelId guildId = transaction (page_body channelId guildId msgArray) d"

text \<open>
  How the \<^verbatim>\<open>try\<close> block ends: an error is thrown to the \<^verbatim>\<open>catch\<close> clause, the function
  returns from inside the loop, or the loop is left.
\<close>

datatype loop_exit = Threw js_error | Returned | LoopDone

definition no_access :: "js_error \<Rightarrow> bool" where
  "no_access err = (code err = NumCode 50001 \<or> code err = NumCode 50013)"

definition fetch_options :: "string option \<Rightarrow> string option \<Rightarrow> fetch_opts" where
  "fetch_options afterId lastSeen =
     (if truthy afterId \<and> \<not> truthy lastSeen
      then \<lparr>fo_limit = PAGE_SIZE, fo_after = afterId, fo_before = None\<rparr>
      else if truthy lastSeen
      then \<lparr>fo_limit = PAGE_SIZE, fo_after = None, fo_before = lastSeen\<rparr>
      else \<lparr>fo_limit = PAGE_SIZE, fo_after = None, fo_before = None\<rparr>)"

text \<open>
  \<^verbatim>\<open>if (!latestId || newest.id > (latestId ?? '0')) latestId = newest.id\<close>, a comparison of
  strings.
\<close>

definition track_latest :: "string option \<Rightarrow> string \<Rightarrow> string option" where
  "track_latest latest newestId =
     (if \<not> truthy latest
         \<or> (case nullish latest (Some ''0'') of None \<Rightarrow> False | Some l \<Rightarrow> l < newestId)
      then Some newestId else latest)"

fun importLoop ::
  "fetch list \<Rightarrow> js_channel \<Rightarrow> string option \<Rightarrow> string option \<Rightarrow> import_state
     \<Rightarrow> (loop_exit \<times> import_state) option" where
  "importLoop [] channel guildId afterId st = None"
| "importLoop (fetch # script) channel guildId afterId st =
     (case fetch (fetch_options afterId (lastId st)) of
        Inl err \<Rightarrow>
          (if no_access err
           then Some (Returned, st\<lparr>st_log := st_log st @ [LogMissingAccess (label channel)]\<rparr>)
           else Some (Threw err, st))
      | Inr msgArray \<Rightarrow>
          (if length msgArray = 0 then Some (LoopDone, st)
           else (case storePage (st_db st) msgArray (ch_id channel) guildId of
                   (Some err, d') \<Rightarrow> Some (Threw err, st\<lparr>st_db := d'\<rparr>)
                 | (None, d') \<Rightarrow>
                     (let st' = st\<lparr>st_db := d',
                                    msgCount := msgCount st + length msgArray,
                                    latestId := track_latest (latestId st) (msg_id (hd msgArray)),
                                    lastId := Some (msg_id (last msgArray))\<rparr>
                      in if length msgArray = PAGE_SIZE
                         then importLoop script channel guildId afterId st'
                         else Some (LoopDone, st')))))"

text \<open>
  \<^verbatim>\<open>importChannel\<close>.  The result is the error that leaves the function, if one does, or
  the store and the log as the function leaves them.
\<close>

definition importChannel ::
  "fetch list \<Rightarrow> db \<Rightarrow> log_line list \<Rightarrow> js_channel \<Rightarrow> string option
     \<Rightarrow> (js_error + db \<times> log_line list) option" where
  "importChannel script d log channel guildId =
     (let afterId = getImportCursor d (ch_id channel);
          st0 = \<lparr>st_db = d, st_log = log @ [LogImporting (label channel) (ch_id channel)],
                 msgCount = 0, latestId = afterId, lastId = None\<rparr>
      in case importLoop script channel guildId afterId st0 of
           None \<Rightarrow> None
         | Some (Returned, st) \<Rightarrow> Some (Inr (st_db st, st_log st))
         | Some (LoopDone, st) \<Rightarrow>
             Some (Inr
               ((if truthy (latestId st)
                 then setImportCursor (st_db st) (ch_id channel) (latestId st) else st_db st),
                (if msgCount st > 0
                 then st_log st @ [LogImported (msgCount st) (label channel)] else st_log st)))
         | Some (Threw err, st) \<Rightarrow>
             (if no_access err
              then Some (Inr (st_db st, st_log st @ [LogMissingAccess (label channel)]))
              else if code err = StrCode ''ETIMEDOUT'' \<or> code err = StrCode ''ECONNRESET''
              then Some (Inr (st_db st, st_log st @ [LogTimeout (label channel)]))
              else Some (Inr (st_db st, st_log st @ [LogError (label channel) (message err)]))))"


section \<open>Auxiliary notions for the proofs\<close>

text \<open>
  A message is bindable when building and binding its parameters does not throw; this does
  not depend on the channel, the guild or the store.  \<open>page_error\<close> is the error of the
  first message of a page that is not bindable.
\<close>

definition bindable :: "js_message \<Rightarrow> bool" where
  "bindable msg = (\<not> isl (message_params msg [] None 0))"

definition page_error :: "js_message list \<Rightarrow> js_error option" where
  "page_error page =
     map_option (\<lambda>msg. projl (message_params msg [] None 0)) (find (\<lambda>msg. \<not> bindable msg) page)"

text \<open>
  The message of a page that comes last among those with a given id, and the effect of
  the DO UPDATE SET clause for a bindable message on a stored row.
\<close>

definition last_with :: "string \<Rightarrow> js_message list \<Rightarrow> js_message option" where
  "last_with i page = find (\<lambda>msg. msg_id msg = i) (rev page)"

definition refresh :: "js_message \<Rightarrow> message_row \<Rightarrow> message_row" where
  "refresh msg r = do_update_set (projr (message_params msg [] None 0)) r"

definition refresh_last :: "js_message list \<Rightarrow> message_row \<Rightarrow> message_row" where
  "refresh_last page r = (case last_with (m_id r) page of None \<Rightarrow> r | Some msg \<Rightarrow> refresh msg r)"

text \<open>
  A page of bindable messages stored without the bookkeeping of errors, and pages stored
  one after the other, each in its transaction, as long as none fails.
\<close>

definition store_one :: "string \<Rightarrow> string option \<Rightarrow> js_message \<Rightarrow> db \<Rightarrow> db" where
  "store_one channelId guildId msg d =
     (let d1 = insert_or_update d (projr (message_params msg channelId guildId (next_rowid (messages d))))
      in case msg_author msg of None \<Rightarrow> d1 | Some a \<Rightarrow> upsertUser d1 a)"






section \<open>Example data\<close>

text \<open>A message object with an id, a content and a created-at string, and nothing else.\<close>

definition plain_message :: "string \<Rightarrow> string \<Rightarrow> string \<Rightarrow> js_message" where
  "plain_message i c t =
     \<lparr>msg_id = i, msg_guildId = None, msg_guild_id = None, msg_author = None,
      msg_author_id = None, msg_content = Some c, msg_thread = None, msg_thread_id = None,
      msg_reference_messageId = None, msg_reference_id = None, msg_reply_count = None,
      msg_reactions = NoValue, msg_attachments = NoValue, msg_embeds = NoValue, msg_raw = ''{}'',
      msg_createdAt = None, msg_created_at = Some t, msg_editedAt = None,
      msg_edited_at = None\<rparr>"

text \<open>
  A store with one message, the same message edited, and the store after the edit has been
  upserted.  \<open>discord_edit\<close> is the edited message as discord.js hands it over: no
  reaction, no attachment, no embed.
\<close>

definition one_message_db :: db where
  "one_message_db =
     projr (upsertMessage empty_db (plain_message ''100'' ''first draft'' ''t1'') ''c1'' None)"

definition edited_message :: js_message where
  "edited_message = (plain_message ''100'' ''second version'' ''t9'')\<lparr>msg_edited_at := Some ''t2''\<rparr>"

definition edited_db :: db where
  "edited_db = projr (upsertMessage one_message_db edited_message ''c1'' None)"

definition discord_edit :: js_message where
  "discord_edit = edited_message\<lparr>msg_reactions := ManagerValue [],
     msg_attachments := CollectionValue [], msg_embeds := ArrayValue []\<rparr>"

text \<open>
  A user, a page of two bindable messages (the edit of the stored message and a new message
  with its author), and a page whose second message is the edit as discord.js hands it
  over.
\<close>

definition alice :: js_user where
  "alice = \<lparr>user_id = ''u1'', user_username = Some ''alice'', user_name' = None,
     user_displayName = None, user_display_name = None, user_globalName = Some ''Alice'',
     user_discriminator = None, user_bot = False, user_is_bot = False, user_avatar = None\<rparr>"

definition plain_page :: "js_message list" where
  "plain_page = [edited_message, (plain_message ''101'' ''another'' ''t3'')\<lparr>msg_author := Some alice\<rparr>]"

definition discord_page :: "js_message list" where
  "discord_page = [(plain_message ''101'' ''another'' ''t3'')\<lparr>msg_author := Some alice\<rparr>,
     discord_edit]"

definition default_opts :: search_opts where
  "default_opts = \<lparr>so_limit = LimitUndefined, so_channelId = None, so_guildId = None,
     so_userId = None, so_before = None, so_after = None\<rparr>"


text \<open>
  Discord ids (snowflakes) are decimal numerals of integers that grow with the time of
  creation: \<open>snowflake\<close> reads the number, \<open>decimal\<close> writes one.
\<close>

definition snowflake :: "string \<Rightarrow> nat" where
  "snowflake s = fold (\<lambda>c n. 10 * n + (of_char c - 48)) s 0"


text \<open>
  Three channels, three errors, a full page of 100 messages with the ids 199 down to 100
  (newest first), a store whose cursor for the first channel is 099, and a store whose
  cursor is an id of 18 digits, with a newer message whose id has 19 digits.
\<close>

definition general_channel :: js_channel where
  "general_channel =
     \<lparr>ch_id = ''c1'', ch_guildId = None, ch_guild_id = None, ch_name = Some ''general'',
      ch_type = Some 0, ch_topic = None, ch_parentId = None, ch_parent_id = None,
      ch_position = None, ch_rawPosition = None\<rparr>"








definition old_cursor_db :: db where
  "old_cursor_db = setImportCursor empty_db ''c1'' (Some ''999999999999999999'')"

definition newer_message :: js_message where
  "newer_message = plain_message ''1000000000000000000'' ''hello'' ''2022-07-22T12:00:00.000Z''"




text \<open>
  A channel with 21 messages \<open>m01\<close> .. \<open>m21\<close> at the increasing created-at strings
  \<open>t01\<close> .. \<open>t21\<close>, stored as one page.
\<close>

definition ctx_ids :: "string list" where
  "ctx_ids = [''m01'', ''m02'', ''m03'', ''m04'', ''m05'', ''m06'', ''m07'', ''m08'', ''m09'',
     ''m10'', ''m11'', ''m12'', ''m13'', ''m14'', ''m15'', ''m16'', ''m17'', ''m18'', ''m19'',
     ''m20'', ''m21'']"

definition ctx_stamps :: "string list" where
  "ctx_stamps = [''t01'', ''t02'', ''t03'', ''t04'', ''t05'', ''t06'', ''t07'', ''t08'', ''t09'',
     ''t10'', ''t11'', ''t12'', ''t13'', ''t14'', ''t15'', ''t16'', ''t17'', ''t18'', ''t19'',
     ''t20'', ''t21'']"

definition ctx_page :: "js_message list" where
  "ctx_page = map (\<lambda>(i, t). plain_message i ''hello'' t) (zip ctx_ids ctx_stamps)"

definition ctx_db :: db where
  "ctx_db = snd (storePage empty_db ctx_page ''c1'' None)"

section \<open>Properties of the store\<close>

lemma pk_messages_empty: "pk_messages empty_db"
  by (simp add: pk_messages_def empty_db_def)

lemma m_id_do_update_set [simp]: "m_id (do_update_set e r) = m_id r"
  by (simp add: do_update_set_def)

lemma map_m_id_do_update:
  "map m_id (map (\<lambda>r. if m_id r = i then do_update_set e r else r) rows) = map m_id rows"
  by (induction rows) simp_all

lemma ids_insert_or_update:
  "map m_id (messages (insert_or_update d new)) =
     (if m_id new \<in> set (map m_id (messages d)) then map m_id (messages d)
      else map m_id (messages d) @ [m_id new])"
proof (cases "\<exists>r \<in> set (messages d). m_id r = m_id new")
  case True
  then have "m_id new \<in> m_id ` set (messages d)" by (metis imageI)
  then have "m_id new \<in> set (map m_id (messages d))" by simp
  with True show ?thesis
    using map_m_id_do_update[of "m_id new" new "messages d"]
    by (simp add: insert_or_update_def del: map_map)
next
  case False
  then have "m_id new \<notin> m_id ` set (messages d)" by (metis imageE)
  then have "m_id new \<notin> set (map m_id (messages d))" by simp
  with False show ?thesis
    by (simp add: insert_or_update_def)
qed

lemma pk_messages_insert_or_update:
  "pk_messages d \<Longrightarrow> pk_messages (insert_or_update d new)"
  by (simp add: pk_messages_def ids_insert_or_update)

lemma upsertMessage_Inr:
  "upsertMessage d msg c g = Inr d' \<longleftrightarrow>
     (\<exists>new. message_params msg c g (next_rowid (messages d)) = Inr new
        \<and> d' = insert_or_update d new)"
  by (auto simp: upsertMessage_def split: sum.splits)

lemma pk_messages_upsertMessage:
  "pk_messages d \<Longrightarrow> upsertMessage d msg c g = Inr d' \<Longrightarrow> pk_messages d'"
  by (auto simp: upsertMessage_Inr pk_messages_insert_or_update)

text \<open>The row that the parameters of a message make, when they can be bound.\<close>

lemma message_params_row:
  assumes "message_params msg c g rid = Inr new"
  shows "m_id new = msg_id msg" and "m_rowid new = rid" and "m_channel_id new = c"
    and "m_content new = nullish (msg_content msg) (Some '''')"
    and "m_reply_count new = nullish (nullish (Option.bind (msg_thread msg) thread_messageCount)
                                (msg_reply_count msg)) (Some 0)"
    and "bind (reactions_expr (msg_reactions msg)) = Inr (m_reactions new)"
    and "bind (attachments_expr (msg_attachments msg)) = Inr (m_attachments new)"
    and "\<exists>v. embeds_expr (msg_embeds msg) = Inr v \<and> bind v = Inr (m_embeds new)"
    and "m_raw new = Some (msg_raw msg)"
    and "m_edited_at new = nullish (msg_editedAt msg) (msg_edited_at msg)"
  using assms by (auto simp: message_params_def split: sum.splits)

text \<open>Whether the parameters can be bound depends on the message alone.\<close>

lemma message_params_error:
  "message_params msg c g rid = Inl err \<Longrightarrow> message_params msg c' g' rid' = Inl err"
  by (auto simp: message_params_def split: sum.splits)

lemma message_params_update:
  assumes "message_params msg c g rid = Inr new"
  shows "\<exists>new'. message_params msg c' g' rid' = Inr new' \<and> do_update_set new' = do_update_set new"
  using assms by (auto simp: message_params_def do_update_set_def fun_eq_iff split: sum.splits)

lemma bindable_iff: "bindable msg \<longleftrightarrow> (\<exists>new. message_params msg c g rid = Inr new)"
proof (cases "message_params msg c g rid")
  case (Inl err)
  from message_params_error[OF this, of "[]" None 0] Inl show ?thesis
    by (simp add: bindable_def)
next
  case (Inr new)
  from message_params_update[OF this, of "[]" None 0] Inr show ?thesis
    by (auto simp: bindable_def)
qed

lemma not_bindable_error:
  "\<not> bindable msg \<Longrightarrow> message_params msg c g rid = Inl (projl (message_params msg [] None 0))"
proof -
  assume "\<not> bindable msg"
  then obtain err where err: "message_params msg [] None 0 = Inl err"
    by (cases "message_params msg [] None 0") (auto simp: bindable_def)
  from message_params_error[OF this, of c g rid] err show ?thesis by simp
qed

lemma upsertMessage_throws_iff: "isl (upsertMessage d msg c g) \<longleftrightarrow> \<not> bindable msg"
  using bindable_iff[of msg c g "next_rowid (messages d)"]
  by (auto simp: upsertMessage_def split: sum.splits)

lemma filter_id_distinct:
  "distinct (map m_id rows) \<Longrightarrow> r \<in> set rows \<Longrightarrow> filter (\<lambda>x. m_id x = m_id r) rows = [r]"
proof (induction rows)
  case Nil
  then show ?case by simp
next
  case (Cons a rows)
  show ?case
  proof (cases "a = r")
    case True
    have "m_id r \<notin> m_id ` set rows"
      using Cons.prems(1) True by simp
    then have "\<forall>x \<in> set rows. m_id x \<noteq> m_id r"
      by (metis imageI)
    then have "filter (\<lambda>x. m_id x = m_id r) rows = []"
      by (simp add: filter_empty_conv)
    with True show ?thesis by simp
  next
    case False
    with Cons.prems have "r \<in> set rows" by simp
    moreover from this Cons.prems(1) have "m_id a \<noteq> m_id r" by force
    ultimately show ?thesis using Cons by simp
  qed
qed

lemma filter_map_update:
  "filter (\<lambda>x. m_id x = i) (map (\<lambda>r. if m_id r = i then do_update_set e r else r) rows)
     = map (do_update_set e) (filter (\<lambda>x. m_id x = i) rows)"
  by (induction rows) simp_all

lemma insert_or_update_existing:
  assumes "pk_messages d" and "r \<in> set (messages d)" and "m_id r = m_id new"
  shows "length (messages (insert_or_update d new)) = length (messages d)"
    and "rows_of (insert_or_update d new) (m_id new) = [do_update_set new r]"
proof -
  have ex: "\<exists>x \<in> set (messages d). m_id x = m_id new"
    using assms(2,3) by blast
  then have upd: "messages (insert_or_update d new) =
      map (\<lambda>x. if m_id x = m_id new then do_update_set new x else x) (messages d)"
    by (simp add: insert_or_update_def)
  have one: "filter (\<lambda>x. m_id x = m_id new) (messages d) = [r]"
    using filter_id_distinct[of "messages d" r] assms by (simp add: pk_messages_def)
  show "length (messages (insert_or_update d new)) = length (messages d)"
    using upd by simp
  show "rows_of (insert_or_update d new) (m_id new) = [do_update_set new r]"
    unfolding rows_of_def upd filter_map_update one by simp
qed

lemma one_message_db_rows:
  "upsertMessage empty_db (plain_message ''100'' ''first draft'' ''t1'') ''c1'' None
     = Inr one_message_db"
  "map (\<lambda>r. (m_rowid r, m_id r, m_content r, m_created_at r, m_edited_at r)) (messages one_message_db)
     = [(1, ''100'', Some ''first draft'', Some ''t1'', None)]"
  "pk_messages one_message_db"
proof -
  have ok: "\<not> isl (upsertMessage empty_db (plain_message ''100'' ''first draft'' ''t1'') ''c1'' None)"
    by code_simp
  then show a: "upsertMessage empty_db (plain_message ''100'' ''first draft'' ''t1'') ''c1'' None
     = Inr one_message_db"
    by (simp add: one_message_db_def)
  show "map (\<lambda>r. (m_rowid r, m_id r, m_content r, m_created_at r, m_edited_at r))
          (messages one_message_db) = [(1, ''100'', Some ''first draft'', Some ''t1'', None)]"
    by code_simp
  show "pk_messages one_message_db"
    using pk_messages_upsertMessage[OF pk_messages_empty a] .
qed

text \<open>
  C6 holds when the parameters of the record can be bound, and fails when they cannot.
  Re-upserting a stored id either throws, which it does exactly when the record is not
  bindable, or leaves the table with its number of rows and the id with exactly one row,
  which is the old one with content, reply count, reactions, attachments, embeds, raw
  snapshot and edited-at taken from the new record; created-at (like every other column)
  is the stored one.  The edited message as discord.js hands it over has the empty array as
  its embeds: the expression hands the array itself to the parameter, the call throws the
  TypeError of the binding, and the stored row keeps the content \<open>first draft\<close>.
\<close>

theorem upsertMessage_existing_refreshes_or_throws:
  "(pk_messages d \<and> r \<in> set (messages d) \<and> m_id r = msg_id msg \<longrightarrow>
      (case upsertMessage d msg c g of
         Inl err \<Rightarrow> \<not> bindable msg
       | Inr d' \<Rightarrow>
           bindable msg
           \<and> length (messages d') = length (messages d)
           \<and> (\<exists>r'. rows_of d' (msg_id msg) = [r']
                \<and> m_content r' = nullish (msg_content msg) (Some '''')
                \<and> bind (reactions_expr (msg_reactions msg)) = Inr (m_reactions r')
                \<and> bind (attachments_expr (msg_attachments msg)) = Inr (m_attachments r')
                \<and> (\<exists>v. embeds_expr (msg_embeds msg) = Inr v \<and> bind v = Inr (m_embeds r'))
                \<and> m_edited_at r' = nullish (msg_editedAt msg) (msg_edited_at msg)
                \<and> m_reply_count r' = nullish (nullish (Option.bind (msg_thread msg)
                                         thread_messageCount) (msg_reply_count msg)) (Some 0)
                \<and> m_created_at r' = m_created_at r
                \<and> m_rowid r' = m_rowid r \<and> m_channel_id r' = m_channel_id r
                \<and> m_author_id r' = m_author_id r)))
   \<and> msg_id discord_edit = ''100'' \<and> msg_content discord_edit = Some ''second version''
   \<and> msg_embeds discord_edit = ArrayValue []
   \<and> embeds_expr (ArrayValue []) = Inr JsObject \<and> bind JsObject = Inl bind_error
   \<and> upsertMessage one_message_db discord_edit ''c1'' None = Inl bind_error
   \<and> map m_content (rows_of one_message_db ''100'') = [Some ''first draft'']"
proof -
  have general: "pk_messages d \<and> r \<in> set (messages d) \<and> m_id r = msg_id msg \<longrightarrow>
      (case upsertMessage d msg c g of
         Inl err \<Rightarrow> \<not> bindable msg
       | Inr d' \<Rightarrow>
           bindable msg
           \<and> length (messages d') = length (messages d)
           \<and> (\<exists>r'. rows_of d' (msg_id msg) = [r']
                \<and> m_content r' = nullish (msg_content msg) (Some '''')
                \<and> bind (reactions_expr (msg_reactions msg)) = Inr (m_reactions r')
                \<and> bind (attachments_expr (msg_attachments msg)) = Inr (m_attachments r')
                \<and> (\<exists>v. embeds_expr (msg_embeds msg) = Inr v \<and> bind v = Inr (m_embeds r'))
                \<and> m_edited_at r' = nullish (msg_editedAt msg) (msg_edited_at msg)
                \<and> m_reply_count r' = nullish (nullish (Option.bind (msg_thread msg)
                                         thread_messageCount) (msg_reply_count msg)) (Some 0)
                \<and> m_created_at r' = m_created_at r
                \<and> m_rowid r' = m_rowid r \<and> m_channel_id r' = m_channel_id r
                \<and> m_author_id r' = m_author_id r))"
  proof (intro impI, elim conjE)
    assume pk: "pk_messages d" and r: "r \<in> set (messages d)" and id: "m_id r = msg_id msg"
    show "case upsertMessage d msg c g of
         Inl err \<Rightarrow> \<not> bindable msg
       | Inr d' \<Rightarrow>
           bindable msg
           \<and> length (messages d') = length (messages d)
           \<and> (\<exists>r'. rows_of d' (msg_id msg) = [r']
                \<and> m_content r' = nullish (msg_content msg) (Some '''')
                \<and> bind (reactions_expr (msg_reactions msg)) = Inr (m_reactions r')
                \<and> bind (attachments_expr (msg_attachments msg)) = Inr (m_attachments r')
                \<and> (\<exists>v. embeds_expr (msg_embeds msg) = Inr v \<and> bind v = Inr (m_embeds r'))
                \<and> m_edited_at r' = nullish (msg_editedAt msg) (msg_edited_at msg)
                \<and> m_reply_count r' = nullish (nullish (Option.bind (msg_thread msg)
                                         thread_messageCount) (msg_reply_count msg)) (Some 0)
                \<and> m_created_at r' = m_created_at r
                \<and> m_rowid r' = m_rowid r \<and> m_channel_id r' = m_channel_id r
                \<and> m_author_id r' = m_author_id r)"
    proof (cases "upsertMessage d msg c g")
      case (Inl err)
      then have "isl (upsertMessage d msg c g)" by simp
      then have "\<not> bindable msg" by (simp add: upsertMessage_throws_iff)
      with Inl show ?thesis by simp
    next
      case (Inr d')
      then have "\<not> isl (upsertMessage d msg c g)" by simp
      then have b: "bindable msg" by (simp add: upsertMessage_throws_iff)
      from Inr obtain new where new: "message_params msg c g (next_rowid (messages d)) = Inr new"
        and d': "d' = insert_or_update d new"
        by (auto simp: upsertMessage_Inr)
      note row = message_params_row[OF new]
      from id row(1) have id': "m_id r = m_id new" by simp
      from insert_or_update_existing[OF pk r id']
      have len: "length (messages d') = length (messages d)"
        and rows: "rows_of d' (msg_id msg) = [do_update_set new r]"
        by (simp_all add: d' row(1))
      have "m_content (do_update_set new r) = nullish (msg_content msg) (Some '''')"
        "bind (reactions_expr (msg_reactions msg)) = Inr (m_reactions (do_update_set new r))"
        "bind (attachments_expr (msg_attachments msg)) = Inr (m_attachments (do_update_set new r))"
        "\<exists>v. embeds_expr (msg_embeds msg) = Inr v \<and> bind v = Inr (m_embeds (do_update_set new r))"
        "m_edited_at (do_update_set new r) = nullish (msg_editedAt msg) (msg_edited_at msg)"
        "m_reply_count (do_update_set new r) = nullish (nullish (Option.bind (msg_thread msg)
                                         thread_messageCount) (msg_reply_count msg)) (Some 0)"
        "m_created_at (do_update_set new r) = m_created_at r"
        "m_rowid (do_update_set new r) = m_rowid r"
        "m_channel_id (do_update_set new r) = m_channel_id r"
        "m_author_id (do_update_set new r) = m_author_id r"
        using row by (simp_all add: do_update_set_def)
      with Inr b len rows show ?thesis by simp
    qed
  qed
  have e1: "msg_id discord_edit = ''100''" "msg_content discord_edit = Some ''second version''"
    "msg_embeds discord_edit = ArrayValue []"
    by (simp_all add: discord_edit_def edited_message_def plain_message_def)
  have e2: "embeds_expr (ArrayValue []) = Inr JsObject" "bind JsObject = Inl bind_error"
    by (simp_all add: embeds_expr_def bind_def)
  have e3: "upsertMessage one_message_db discord_edit ''c1'' None = Inl bind_error"
    by (simp add: upsertMessage_def message_params_def discord_edit_def edited_message_def
        plain_message_def embeds_expr_def reactions_expr_def attachments_expr_def bind_def)
  have e4: "map m_content (rows_of one_message_db ''100'') = [Some ''first draft'']"
    by code_simp
  from general e1 e2 e3 e4 show ?thesis by blast
qed

theorem upsertMessage_existing_refreshes_or_throws_witness:
  "pk_messages one_message_db
   \<and> hd (messages one_message_db) \<in> set (messages one_message_db)
   \<and> m_id (hd (messages one_message_db)) = msg_id edited_message
   \<and> bindable edited_message
   \<and> upsertMessage one_message_db edited_message ''c1'' None = Inr edited_db
   \<and> length (messages edited_db) = 1
   \<and> map m_content (rows_of edited_db ''100'') = [Some ''second version'']
   \<and> map m_edited_at (rows_of edited_db ''100'') = [Some ''t2'']
   \<and> map m_created_at (rows_of edited_db ''100'') = [Some ''t1'']"
proof -
  have h1: "pk_messages one_message_db"
    by (rule one_message_db_rows(3))
  obtain r0 where r0: "messages one_message_db = [r0]" and fields: "m_id r0 = ''100''"
    "m_created_at r0 = Some ''t1''"
    using one_message_db_rows(2) by (cases "messages one_message_db") auto
  have h2: "hd (messages one_message_db) \<in> set (messages one_message_db)"
    by (simp add: r0)
  have new: "msg_id edited_message = ''100''"
    "nullish (msg_content edited_message) (Some '''') = Some ''second version''"
    "nullish (msg_editedAt edited_message) (msg_edited_at edited_message) = Some ''t2''"
    by (simp_all add: edited_message_def plain_message_def nullish_def)
  have h3: "m_id (hd (messages one_message_db)) = msg_id edited_message"
    by (simp add: r0 fields new)
  from upsertMessage_existing_refreshes_or_throws[of one_message_db "hd (messages one_message_db)"
      edited_message "''c1''" None] h1 h2 h3
  have t: "case upsertMessage one_message_db edited_message ''c1'' None of
         Inl err \<Rightarrow> \<not> bindable edited_message
       | Inr d' \<Rightarrow>
           bindable edited_message
           \<and> length (messages d') = length (messages one_message_db)
           \<and> (\<exists>r'. rows_of d' (msg_id edited_message) = [r']
                \<and> m_content r' = nullish (msg_content edited_message) (Some '''')
                \<and> m_edited_at r' = nullish (msg_editedAt edited_message) (msg_edited_at edited_message)
                \<and> m_created_at r' = m_created_at (hd (messages one_message_db)))"
    by (auto split: sum.splits)
  have ok: "\<not> isl (upsertMessage one_message_db edited_message ''c1'' None)"
    by code_simp
  then have run: "upsertMessage one_message_db edited_message ''c1'' None = Inr edited_db"
    by (simp add: edited_db_def)
  from t run have "bindable edited_message"
    and "length (messages edited_db) = 1"
    and "\<exists>r'. rows_of edited_db ''100'' = [r']
                \<and> m_content r' = Some ''second version''
                \<and> m_edited_at r' = Some ''t2''
                \<and> m_created_at r' = Some ''t1''"
    by (simp_all add: r0 fields new)
  with h1 h2 h3 run show ?thesis by auto
qed

section \<open>Storing a page twice\<close>

lemma do_update_set_twice: "do_update_set e2 (do_update_set e1 r) = do_update_set e2 r"
  by (simp add: do_update_set_def)

lemma do_update_set_self: "do_update_set new new = new"
  by (simp add: do_update_set_def)

lemma do_update_set_params:
  "message_params msg c g rid = Inr new \<Longrightarrow> do_update_set new r = refresh msg r"
proof -
  assume new: "message_params msg c g rid = Inr new"
  from message_params_update[OF this, of "[]" None 0]
  obtain new' where "message_params msg [] None 0 = Inr new'"
    and "do_update_set new' = do_update_set new"
    by blast
  then show ?thesis
    by (simp add: refresh_def)
qed

lemma refresh_refresh: "refresh m2 (refresh m1 r) = refresh m2 r"
  by (simp add: refresh_def do_update_set_twice)

lemma m_id_refresh [simp]: "m_id (refresh msg r) = m_id r"
  by (simp add: refresh_def)

lemma refresh_params:
  "message_params msg c g rid = Inr new \<Longrightarrow> refresh msg new = new"
  using do_update_set_params[of msg c g rid new new] by (simp add: do_update_set_self)

lemma messages_upsertUser [simp]:
  "messages (upsertUser d u) = messages d"
  "messages_fts (upsertUser d u) = messages_fts d"
  "import_cursors (upsertUser d u) = import_cursors d"
  "channels (upsertUser d u) = channels d"
  by (simp_all add: upsertUser_def)

text \<open>
  A page of bindable messages is stored by the plain fold; a page with a message that is
  not bindable throws the error of the first such message and is rolled back.
\<close>

lemma upsertMessage_bindable:
  "bindable msg \<Longrightarrow>
     upsertMessage d msg c g
     = Inr (insert_or_update d (projr (message_params msg c g (next_rowid (messages d)))))"
  using bindable_iff[of msg c g "next_rowid (messages d)"]
  by (auto simp: upsertMessage_def)

lemma upsertMessage_not_bindable:
  "\<not> bindable msg \<Longrightarrow> upsertMessage d msg c g = Inl (projl (message_params msg [] None 0))"
  using not_bindable_error[of msg c g "next_rowid (messages d)"]
  by (simp add: upsertMessage_def)

lemma page_body_bindable:
  "\<forall>msg \<in> set page. bindable msg \<Longrightarrow> page_body c g page d = (None, fold (store_one c g) page d)"
proof (induction page arbitrary: d)
  case Nil
  then show ?case by simp
next
  case (Cons msg page)
  then have b: "bindable msg" and rest: "\<forall>msg \<in> set page. bindable msg"
    by simp_all
  show ?case
    by (simp add: upsertMessage_bindable[OF b] Cons.IH[OF rest] store_one_def Let_def)
qed

lemma page_body_error: "fst (page_body c g page d) = page_error page"
proof (induction page arbitrary: d)
  case Nil
  then show ?case by (simp add: page_error_def)
next
  case (Cons msg page)
  show ?case
  proof (cases "bindable msg")
    case True
    have "page_error (msg # page) = page_error page"
      using True by (simp add: page_error_def)
    then show ?thesis
      by (simp add: upsertMessage_bindable[OF True] Cons.IH)
  next
    case False
    then show ?thesis
      by (simp add: upsertMessage_not_bindable page_error_def)
  qed
qed

lemma page_error_None_iff: "page_error page = None \<longleftrightarrow> (\<forall>msg \<in> set page. bindable msg)"
  by (auto simp: page_error_def find_None_iff)

lemma storePage_cases:
  "storePage d page c g
   = (if \<forall>msg \<in> set page. bindable msg then (None, fold (store_one c g) page d)
      else (page_error page, d))"
proof (cases "\<forall>msg \<in> set page. bindable msg")
  case True
  then show ?thesis
    by (simp add: storePage_def transaction_def page_body_bindable)
next
  case False
  then have "page_error page \<noteq> None"
    by (simp add: page_error_None_iff)
  then obtain err where err: "page_error page = Some err"
    by blast
  obtain e d' where body: "page_body c g page d = (e, d')"
    by (cases "page_body c g page d")
  with page_body_error[of c g page d] err have "e = Some err"
    by simp
  with body err False show ?thesis
    by (simp add: storePage_def transaction_def)
qed

lemma messages_store_one_existing:
  assumes "bindable msg" and "msg_id msg \<in> m_id ` set (messages d)"
  shows "messages (store_one c g msg d)
         = map (\<lambda>r. if m_id r = msg_id msg then refresh msg r else r) (messages d)"
    and "messages_fts (store_one c g msg d) = messages_fts d"
proof -
  from assms(1) obtain new where new: "message_params msg c g (next_rowid (messages d)) = Inr new"
    using bindable_iff by blast
  note id = message_params_row(1)[OF new]
  from assms(2) have ex: "\<exists>r \<in> set (messages d). m_id r = m_id new"
    unfolding id by (metis imageE)
  then show "messages (store_one c g msg d)
         = map (\<lambda>r. if m_id r = msg_id msg then refresh msg r else r) (messages d)"
    by (simp add: store_one_def insert_or_update_def Let_def new id do_update_set_params[OF new]
        split: option.splits)
  from ex show "messages_fts (store_one c g msg d) = messages_fts d"
    by (simp add: store_one_def insert_or_update_def Let_def new split: option.splits)
qed

lemma messages_store_one_new:
  assumes "bindable msg" and "msg_id msg \<notin> m_id ` set (messages d)"
  shows "\<exists>new. message_params msg c g (next_rowid (messages d)) = Inr new
           \<and> messages (store_one c g msg d) = messages d @ [new]"
proof -
  from assms(1) obtain new where new: "message_params msg c g (next_rowid (messages d)) = Inr new"
    using bindable_iff by blast
  note id = message_params_row(1)[OF new]
  from assms(2) have "\<not> (\<exists>r \<in> set (messages d). m_id r = m_id new)"
    unfolding id by (metis imageI)
  then show ?thesis
    by (simp add: store_one_def insert_or_update_def Let_def new split: option.splits)
qed

lemma map_m_id_refresh:
  "map m_id (map (\<lambda>r. if m_id r = i then refresh msg r else r) rows) = map m_id rows"
  by (induction rows) simp_all

lemma ids_store_one:
  assumes "bindable msg"
  shows "m_id ` set (messages (store_one c g msg d)) = insert (msg_id msg) (m_id ` set (messages d))"
proof (cases "msg_id msg \<in> m_id ` set (messages d)")
  case True
  have "map m_id (map (\<lambda>r. if m_id r = msg_id msg then refresh msg r else r) (messages d))
             = map m_id (messages d)"
    by (rule map_m_id_refresh)
  then have "set (map m_id (messages (store_one c g msg d))) = set (map m_id (messages d))"
    by (simp only: messages_store_one_existing(1)[OF assms True])
  then have "m_id ` set (messages (store_one c g msg d)) = m_id ` set (messages d)"
    by simp
  with True show ?thesis
    by auto
next
  case False
  from messages_store_one_new[OF assms False, of c g] obtain new
    where new: "message_params msg c g (next_rowid (messages d)) = Inr new"
      and ms: "messages (store_one c g msg d) = messages d @ [new]"
    by blast
  show ?thesis
    by (simp add: ms message_params_row(1)[OF new])
qed

lemma find_append_conv:
  "find P (xs @ ys) = (case find P xs of None \<Rightarrow> find P ys | Some x \<Rightarrow> Some x)"
  by (induction xs) simp_all

lemma ids_stored:
  "\<forall>msg \<in> set page. bindable msg \<Longrightarrow>
     m_id ` set (messages (fold (store_one c g) page d)) = msg_id ` set page \<union> m_id ` set (messages d)"
  by (induction page arbitrary: d) (auto simp: ids_store_one)

lemma last_with_snoc:
  "last_with i (page @ [msg]) = (if msg_id msg = i then Some msg else last_with i page)"
  by (simp add: last_with_def)

lemma last_with_Cons:
  "last_with i (msg # page)
   = (case last_with i page of Some m \<Rightarrow> Some m | None \<Rightarrow> if msg_id msg = i then Some msg else None)"
  by (simp add: last_with_def find_append_conv split: option.splits)

lemma refresh_last_Cons:
  "refresh_last page (if m_id r = msg_id msg then refresh msg r else r) = refresh_last (msg # page) r"
  by (simp add: refresh_last_def last_with_Cons refresh_refresh split: option.splits)

text \<open>A page whose ids are all stored only rewrites rows.\<close>

lemma stored_all_existing:
  assumes "\<forall>msg \<in> set page. bindable msg" and "msg_id ` set page \<subseteq> m_id ` set (messages d)"
  shows "messages (fold (store_one c g) page d) = map (refresh_last page) (messages d)
       \<and> messages_fts (fold (store_one c g) page d) = messages_fts d"
  using assms
proof (induction page arbitrary: d)
  case Nil
  then show ?case
    by (simp add: refresh_last_def last_with_def map_idI)
next
  case (Cons msg page)
  let ?d = "store_one c g msg d"
  from Cons.prems have b: "bindable msg" and bs: "\<forall>msg \<in> set page. bindable msg"
    and here: "msg_id msg \<in> m_id ` set (messages d)"
    by simp_all
  have ids: "m_id ` set (messages ?d) = m_id ` set (messages d)"
    using here by (auto simp: ids_store_one[OF b])
  with Cons.prems(2) have "msg_id ` set page \<subseteq> m_id ` set (messages ?d)"
    by simp
  from Cons.IH[OF bs this]
  have "messages (fold (store_one c g) page ?d) = map (refresh_last page) (messages ?d)"
    and "messages_fts (fold (store_one c g) page ?d) = messages_fts ?d"
    by simp_all
  then show ?case
    by (simp add: messages_store_one_existing[OF b here] refresh_last_Cons o_def)
qed

text \<open>After a page is stored, every row agrees with the last message of the page for its id.\<close>

lemma stored_settled:
  "\<forall>msg \<in> set page. bindable msg \<Longrightarrow> r \<in> set (messages (fold (store_one c g) page d)) \<Longrightarrow>
     refresh_last page r = r"
proof (induction page arbitrary: r rule: rev_induct)
  case Nil
  then show ?case
    by (simp add: refresh_last_def last_with_def)
next
  case (snoc msg page)
  let ?d = "fold (store_one c g) page d"
  from snoc.prems(1) have b: "bindable msg" and bs: "\<forall>msg \<in> set page. bindable msg"
    by simp_all
  show ?case
  proof (cases "msg_id msg \<in> m_id ` set (messages ?d)")
    case True
    from snoc.prems(2) obtain r0 where r0: "r0 \<in> set (messages ?d)"
      and r: "r = (if m_id r0 = msg_id msg then refresh msg r0 else r0)"
      by (auto simp: messages_store_one_existing(1)[OF b True])
    show ?thesis
    proof (cases "m_id r0 = msg_id msg")
      case True
      with r show ?thesis
        by (simp add: refresh_last_def last_with_snoc refresh_refresh)
    next
      case False
      with r snoc.IH[OF bs r0] show ?thesis
        by (simp add: refresh_last_def last_with_snoc)
    qed
  next
    case False
    from messages_store_one_new[OF b False, of c g] obtain new
      where new: "message_params msg c g (next_rowid (messages ?d)) = Inr new"
        and ms: "messages (store_one c g msg ?d) = messages ?d @ [new]"
      by blast
    from snoc.prems(2) ms have "r \<in> set (messages ?d) \<or> r = new"
      by auto
    then show ?thesis
    proof
      assume old: "r \<in> set (messages ?d)"
      with False have "m_id r \<noteq> msg_id msg" by (metis imageI)
      with snoc.IH[OF bs old] show ?thesis
        by (simp add: refresh_last_def last_with_snoc)
    next
      assume "r = new"
      then show ?thesis
        by (simp add: refresh_last_def last_with_snoc refresh_params[OF new]
            message_params_row(1)[OF new])
    qed
  qed
qed

lemma stored_twice:
  assumes "\<forall>msg \<in> set page. bindable msg"
  shows "messages (fold (store_one c g) page (fold (store_one c g) page d))
           = messages (fold (store_one c g) page d)
       \<and> messages_fts (fold (store_one c g) page (fold (store_one c g) page d))
           = messages_fts (fold (store_one c g) page d)"
proof -
  let ?d1 = "fold (store_one c g) page d"
  have "msg_id ` set page \<subseteq> m_id ` set (messages ?d1)"
    by (simp add: ids_stored[OF assms])
  from stored_all_existing[OF assms this, of c g]
  have m: "messages (fold (store_one c g) page ?d1) = map (refresh_last page) (messages ?d1)"
    and f: "messages_fts (fold (store_one c g) page ?d1) = messages_fts ?d1"
    by simp_all
  have "map (refresh_last page) (messages ?d1) = messages ?d1"
    by (rule map_idI) (rule stored_settled[OF assms])
  with m f show ?thesis by simp
qed

lemma last_with_in_page:
  assumes "last_with i page = Some msg"
  shows "msg \<in> set page \<and> msg_id msg = i"
proof -
  from assms obtain k where k: "k < length (rev page)" and id: "msg_id (rev page ! k) = i"
    and msg: "msg = rev page ! k"
    by (auto simp: last_with_def find_Some_iff)
  from k have "rev page ! k \<in> set (rev page)"
    by (rule nth_mem)
  with msg id show ?thesis
    by simp
qed

lemma stored_content:
  assumes "\<forall>msg \<in> set page. bindable msg"
    and "r \<in> set (messages (fold (store_one c g) page d))"
    and "last_with (m_id r) page = Some msg"
  shows "m_content r = nullish (msg_content msg) (Some '''')"
proof -
  from stored_settled[OF assms(1,2)] assms(3) have same: "refresh msg r = r"
    by (simp add: refresh_last_def)
  from last_with_in_page[OF assms(3)] assms(1) have "bindable msg"
    by blast
  then obtain new where new: "message_params msg [] None 0 = Inr new"
    using bindable_iff by blast
  have "m_content (refresh msg r) = m_content new"
    by (simp add: refresh_def new do_update_set_def)
  with same message_params_row(4)[OF new] show ?thesis
    by simp
qed

text \<open>
  C3.  A page is stored in one transaction, and stored again in the store that the first
  transaction left.  The second transaction ends as the first did, and changes neither the
  number of message rows, nor the content stored under any id, nor the number of documents
  in the index: the table of messages and the index are the same as after the first.  The
  transaction commits exactly when every message of the page is bindable, and then every
  id of the page is stored, with the content of the last message of the page that has the
  id; otherwise it throws and is rolled back, both times, and the store is the one before
  the first.
\<close>

theorem storePage_idempotent:
  assumes "storePage d page c g = (e1, d1)" and "storePage d1 page c g = (e2, d2)"
  shows "e2 = e1
       \<and> length (messages d2) = length (messages d1)
       \<and> map m_content (rows_of d2 i) = map m_content (rows_of d1 i)
       \<and> length (messages_fts d2) = length (messages_fts d1)
       \<and> messages d2 = messages d1
       \<and> messages_fts d2 = messages_fts d1
       \<and> (e1 = None \<longleftrightarrow> (\<forall>msg \<in> set page. bindable msg))
       \<and> (e1 = None \<longrightarrow> msg_id ` set page \<subseteq> m_id ` set (messages d1))
       \<and> (e1 = None \<longrightarrow>
            (\<forall>r \<in> set (messages d1). \<forall>msg. last_with (m_id r) page = Some msg \<longrightarrow>
               m_content r = nullish (msg_content msg) (Some '''')))
       \<and> (e1 \<noteq> None \<longrightarrow> d1 = d \<and> d2 = d)"
proof (cases "\<forall>msg \<in> set page. bindable msg")
  case True
  from assms True have e: "e1 = None" "e2 = None"
    and d1: "d1 = fold (store_one c g) page d" and d2: "d2 = fold (store_one c g) page d1"
    by (simp_all add: storePage_cases)
  from stored_twice[OF True, of c g d] d1 d2
  have same: "messages d2 = messages d1" "messages_fts d2 = messages_fts d1"
    by simp_all
  have ids: "msg_id ` set page \<subseteq> m_id ` set (messages d1)"
    by (simp add: d1 ids_stored[OF True])
  have content: "\<forall>r \<in> set (messages d1). \<forall>msg. last_with (m_id r) page = Some msg \<longrightarrow>
               m_content r = nullish (msg_content msg) (Some '''')"
    unfolding d1 using stored_content[OF True] by blast
  from e same ids content True show ?thesis
    by (simp add: rows_of_def)
next
  case False
  then have ne: "page_error page \<noteq> None"
    by (simp add: page_error_None_iff)
  from assms False have "e1 = page_error page" "d1 = d" "e2 = page_error page" "d2 = d"
    by (simp_all add: storePage_cases)
  with ne False show ?thesis
    by (auto simp: page_error_None_iff)
qed


theorem storePage_idempotent_witness:
  "fst (storePage one_message_db plain_page ''c1'' None) = None
   \<and> fst (storePage (snd (storePage one_message_db plain_page ''c1'' None)) plain_page ''c1'' None)
       = None
   \<and> map (\<lambda>r. (m_id r, m_content r))
        (messages (snd (storePage one_message_db plain_page ''c1'' None)))
       = [(''100'', Some ''second version''), (''101'', Some ''another'')]
   \<and> map (\<lambda>r. (m_id r, m_content r))
        (messages (snd (storePage (snd (storePage one_message_db plain_page ''c1'' None))
           plain_page ''c1'' None)))
       = [(''100'', Some ''second version''), (''101'', Some ''another'')]
   \<and> length (messages_fts (snd (storePage (snd (storePage one_message_db plain_page ''c1'' None))
        plain_page ''c1'' None))) = 2
   \<and> fst (storePage one_message_db discord_page ''c1'' None) = Some bind_error
   \<and> snd (storePage one_message_db discord_page ''c1'' None) = one_message_db
   \<and> fst (storePage (snd (storePage one_message_db discord_page ''c1'' None)) discord_page
        ''c1'' None) = Some bind_error
   \<and> map m_id (messages (snd (storePage one_message_db discord_page ''c1'' None))) = [''100'']"
proof -
  let ?d1 = "snd (storePage one_message_db plain_page ''c1'' None)"
  let ?d2 = "snd (storePage ?d1 plain_page ''c1'' None)"
  let ?r1 = "snd (storePage one_message_db discord_page ''c1'' None)"
  let ?r2 = "snd (storePage ?r1 discord_page ''c1'' None)"
  have a1: "storePage one_message_db plain_page ''c1'' None
            = (fst (storePage one_message_db plain_page ''c1'' None), ?d1)"
    by simp
  have a2: "storePage ?d1 plain_page ''c1'' None = (fst (storePage ?d1 plain_page ''c1'' None), ?d2)"
    by simp
  note t = storePage_idempotent[OF a1 a2]
  have e1: "fst (storePage one_message_db plain_page ''c1'' None) = None"
    by code_simp
  have m1: "map (\<lambda>r. (m_id r, m_content r)) (messages ?d1)
            = [(''100'', Some ''second version''), (''101'', Some ''another'')]"
    by code_simp
  have f1: "length (messages_fts ?d1) = 2"
    by code_simp
  from t e1 have e2: "fst (storePage ?d1 plain_page ''c1'' None) = None"
    and m2: "messages ?d2 = messages ?d1" and f2: "length (messages_fts ?d2) = length (messages_fts ?d1)"
    by simp_all
  have b1: "storePage one_message_db discord_page ''c1'' None
            = (fst (storePage one_message_db discord_page ''c1'' None), ?r1)"
    by simp
  have b2: "storePage ?r1 discord_page ''c1'' None = (fst (storePage ?r1 discord_page ''c1'' None), ?r2)"
    by simp
  note u = storePage_idempotent[OF b1 b2]
  have x1: "fst (storePage one_message_db discord_page ''c1'' None) = Some bind_error"
    by code_simp
  from u x1 have x2: "fst (storePage ?r1 discord_page ''c1'' None) = Some bind_error"
    and rolled: "?r1 = one_message_db"
    by simp_all
  have ids: "map m_id (messages one_message_db) = [''100'']"
    by code_simp
  from e1 e2 m1 m2 f1 f2 x1 x2 rolled ids show ?thesis
    by simp
qed

lemma edited_db_rows:
  "upsertMessage one_message_db edited_message ''c1'' None = Inr edited_db"
proof -
  have "\<not> isl (upsertMessage one_message_db edited_message ''c1'' None)"
    by code_simp
  then show ?thesis
    by (simp add: edited_db_def)
qed

text \<open>
  C1 fails on the update path.  The message \<open>100\<close> is stored with the content
  \<open>first draft\<close> and then upserted again with the content \<open>second version\<close>.  The row
  holds the new content, but no trigger ran: the index still holds the document
  \<open>first draft\<close>.  A search for \<open>second\<close> finds nothing, and a search for \<open>draft\<close> finds
  the message, whose content no longer has that word.  (The stemmer is the identity here,
  and all ranks are equal.)
\<close>

theorem upsertMessage_update_leaves_index_stale:
  "upsertMessage empty_db (plain_message ''100'' ''first draft'' ''t1'') ''c1'' None
     = Inr one_message_db
   \<and> upsertMessage one_message_db edited_message ''c1'' None = Inr edited_db
   \<and> map m_content (messages edited_db) = [Some ''second version'']
   \<and> map content_text (messages_fts edited_db) = [Some ''first draft'']
   \<and> searchMessages (\<lambda>t. t) (\<lambda>doc. 0::nat) edited_db (Some ''second'') default_opts = Inr []
   \<and> map_sum id (map (m_content \<circ> j_message))
        (searchMessages (\<lambda>t. t) (\<lambda>doc. 0::nat) edited_db (Some ''draft'') default_opts)
     = Inr [Some ''second version'']"
proof -
  have a: "map m_content (messages edited_db) = [Some ''second version'']"
    by code_simp
  have b: "map content_text (messages_fts edited_db) = [Some ''first draft'']"
    by code_simp
  have c: "searchMessages (\<lambda>t. t) (\<lambda>doc. 0::nat) edited_db (Some ''second'') default_opts = Inr []"
    by code_simp
  have d: "map_sum id (map (m_content \<circ> j_message))
        (searchMessages (\<lambda>t. t) (\<lambda>doc. 0::nat) edited_db (Some ''draft'') default_opts)
     = Inr [Some ''second version'']"
    by code_simp
  from one_message_db_rows(1) edited_db_rows a b c d show ?thesis by simp
qed

section \<open>Search\<close>





































section \<open>Backfill of a channel\<close>

lemma import_cursors_insert_or_update [simp]:
  "import_cursors (insert_or_update d new) = import_cursors d"
  by (simp add: insert_or_update_def)

lemma import_cursors_store_one [simp]:
  "import_cursors (store_one c g msg d) = import_cursors d"
  by (simp add: store_one_def Let_def split: option.splits)

lemma import_cursors_stored [simp]:
  "import_cursors (fold (store_one c g) page d) = import_cursors d"
  by (induction page arbitrary: d) simp_all






















text \<open>
  C9 fails when ids differ in length.  The cursor of the channel is the id
  \<open>999999999999999999\<close>; the run fetches one newer message, \<open>1000000000000000000\<close>, and
  stores it.  The ids are compared as strings, and as a string the new id is the lesser
  one: the cursor written at the end of the run is the old id, not the greatest id seen.
\<close>

theorem importChannel_cursor_not_advanced:
  "map_option (map_sum id (\<lambda>(d', l). (map m_id (messages d'), getImportCursor d' ''c1'', l)))
     (importChannel [\<lambda>opts. Inr [newer_message]] old_cursor_db [] general_channel None)
   = Some (Inr ([''1000000000000000000''], Some ''999999999999999999'',
        [LogImporting ''#general'' ''c1'', LogImported 1 ''#general'']))
   \<and> snowflake ''999999999999999999'' < snowflake ''1000000000000000000''
   \<and> ''1000000000000000000'' < ''999999999999999999''"
proof -
  have run: "map_option (map_sum id (\<lambda>(d', l). (map m_id (messages d'), getImportCursor d' ''c1'', l)))
     (importChannel [\<lambda>opts. Inr [newer_message]] old_cursor_db [] general_channel None)
   = Some (Inr ([''1000000000000000000''], Some ''999999999999999999'',
        [LogImporting ''#general'' ''c1'', LogImported 1 ''#general'']))"
    by code_simp
  have num: "snowflake ''999999999999999999'' < snowflake ''1000000000000000000''"
    by (simp add: snowflake_def)
  have cmp: "''1000000000000000000'' < ''999999999999999999''"
    by simp
  from run num cmp show ?thesis by simp
qed

section \<open>The rate limiter\<close>

lemma acquire_finish_watermark:
  "nextTime (acquire_finish now l) = max now (nextTime l) + intervalMs l"
  "intervalMs (acquire_finish now l) = intervalMs l"
  by (simp_all add: acquire_finish_def)

text \<open>
  Calls that do not overlap are spaced: a call that runs alone completes no earlier than
  the watermark it found, and leaves the watermark one interval after its completion.
\<close>

lemma acquire_alone_spacing:
  assumes "0 \<le> late" and "acquire_alone now late l = (g, l')"
  shows "nextTime l \<le> g \<and> now \<le> g \<and> nextTime l' = g + intervalMs l
         \<and> intervalMs l' = intervalMs l"
  using assms
  by (auto simp: acquire_alone_def acquire_enter_def acquire_finish_def split: if_splits)

text \<open>
  C4 fails for callers that wait at the same time.  The limiter is created at time 0
  with an interval of 1000 ms.  First run: three callers call \<^verbatim>\<open>acquire()\<close> at time 0; the
  first completes at once, the other two both find the watermark 1000, sleep until
  then, and both complete at 1000: three calls have completed after 1000 ms, not 2000, and
  two of them at the same time.  Second run, two workers as in the importer: caller 0
  completes at 0 and calls again at 200 while caller 1 still sleeps; both wake and
  complete at 1000.
\<close>

theorem acquire_waiting_callers_complete_together:
  "map_option (\<lambda>s. (grants s, nextTime (lim s)))
     (sim_run [Call 0 0, Call 1 0, Call 2 0, Wake 1 1000, Wake 2 1000] (sim_init 1000 0))
     = Some ([(0, 0), (1, 1000), (2, 1000)], 3000)
   \<and> map_option (\<lambda>s. (grants s, nextTime (lim s)))
     (sim_run [Call 0 0, Call 1 0, Call 0 200, Wake 1 1000, Wake 0 1000] (sim_init 1000 0))
     = Some ([(0, 0), (1, 1000), (0, 1000)], 3000)"
  by (simp add: sim_init_def createRateLimiter_def acquire_enter_def acquire_finish_def)

section \<open>The bounded task runner\<close>





























section \<open>The context window\<close>

text \<open>Filtering a strictly increasing list by a bound given as one of its elements.\<close>

lemma strict_filter_le:
  fixes ts :: "'a::linorder list"
  assumes "sorted_wrt (<) ts" and "k < length ts"
  shows "filter (\<lambda>t. t \<le> ts ! k) ts = take (Suc k) ts"
proof -
  have split: "ts = take (Suc k) ts @ drop (Suc k) ts" by simp
  have a: "\<forall>t \<in> set (take (Suc k) ts). t \<le> ts ! k"
  proof
    fix t assume "t \<in> set (take (Suc k) ts)"
    then obtain i where i: "i < Suc k" "i < length ts" "t = ts ! i"
      by (auto simp: in_set_conv_nth)
    show "t \<le> ts ! k"
    proof (cases "i = k")
      case True with i show ?thesis by simp
    next
      case False
      with i have "i < k" by simp
      then have "ts ! i < ts ! k" using assms sorted_wrt_nth_less by blast
      with i show ?thesis by simp
    qed
  qed
  have b: "\<forall>t \<in> set (drop (Suc k) ts). \<not> t \<le> ts ! k"
  proof
    fix t assume "t \<in> set (drop (Suc k) ts)"
    then obtain i where "i < length ts - Suc k" "t = ts ! (Suc k + i)"
      by (auto simp: in_set_conv_nth)
    then have i: "Suc k + i < length ts" "t = ts ! (Suc k + i)"
      by simp_all
    have "ts ! k < ts ! (Suc k + i)"
      using assms(1) i(1) sorted_wrt_nth_less[of "(<)" ts k "Suc k + i"] by simp
    with i show "\<not> t \<le> ts ! k" by simp
  qed
  have "filter (\<lambda>t. t \<le> ts ! k) ts
        = filter (\<lambda>t. t \<le> ts ! k) (take (Suc k) ts) @ filter (\<lambda>t. t \<le> ts ! k) (drop (Suc k) ts)"
    by (metis split filter_append)
  also have "\<dots> = take (Suc k) ts"
    using a b by (simp add: filter_empty_conv filter_id_conv)
  finally show ?thesis .
qed

lemma strict_filter_ge:
  fixes ts :: "'a::linorder list"
  assumes "sorted_wrt (<) ts" and "k < length ts"
  shows "filter (\<lambda>t. ts ! k \<le> t) ts = drop k ts"
proof -
  have a: "\<forall>t \<in> set (take k ts). \<not> ts ! k \<le> t"
  proof
    fix t assume "t \<in> set (take k ts)"
    then obtain i where i: "i < k" "t = ts ! i"
      by (auto simp: in_set_conv_nth)
    then have "ts ! i < ts ! k" using assms sorted_wrt_nth_less by blast
    with i show "\<not> ts ! k \<le> t" by simp
  qed
  have b: "\<forall>t \<in> set (drop k ts). ts ! k \<le> t"
  proof
    fix t assume "t \<in> set (drop k ts)"
    then obtain i where "i < length ts - k" "t = ts ! (k + i)"
      by (auto simp: in_set_conv_nth)
    then have i: "k + i < length ts" "t = ts ! (k + i)"
      by simp_all
    show "ts ! k \<le> t"
    proof (cases "i = 0")
      case True with i show ?thesis by simp
    next
      case False
      then have "ts ! k < ts ! (k + i)"
        using assms(1) i(1) sorted_wrt_nth_less[of "(<)" ts k "k + i"] by simp
      with i show ?thesis by simp
    qed
  qed
  have "filter (\<lambda>t. ts ! k \<le> t) ts
        = filter (\<lambda>t. ts ! k \<le> t) (take k ts) @ filter (\<lambda>t. ts ! k \<le> t) (drop k ts)"
    by (metis append_take_drop_id filter_append)
  also have "\<dots> = drop k ts"
    using a b by (simp add: filter_empty_conv filter_id_conv)
  finally show ?thesis .
qed

lemma strict_filter_between:
  fixes ts :: "'a::linorder list"
  assumes "sorted_wrt (<) ts" and "a \<le> b" and "b < length ts"
  shows "filter (\<lambda>t. ts ! a \<le> t \<and> t \<le> ts ! b) ts = take (Suc b - a) (drop a ts)"
proof -
  have "filter (\<lambda>t. ts ! a \<le> t \<and> t \<le> ts ! b) ts
        = filter (\<lambda>t. ts ! a \<le> t) (filter (\<lambda>t. t \<le> ts ! b) ts)"
    by (simp add: conj_commute)
  also have "\<dots> = filter (\<lambda>t. ts ! a \<le> t) (take (Suc b) ts)"
    using assms by (simp add: strict_filter_le)
  also have "\<dots> = drop a (take (Suc b) ts)"
    using strict_filter_ge[of "take (Suc b) ts" a] assms
    by simp
  also have "\<dots> = take (Suc b - a) (drop a ts)"
    by (simp add: drop_take)
  finally show ?thesis .
qed


lemma limit1_offset_nth:
  "limit1_offset off xs = (if nat off < length xs then Some (xs ! nat off) else None)"
proof (cases "nat off < length xs")
  case True
  then have "drop (nat off) xs = xs ! nat off # drop (Suc (nat off)) xs"
    by (simp add: Cons_nth_drop_Suc)
  with True show ?thesis by (simp add: limit1_offset_def)
next
  case False
  then show ?thesis by (simp add: limit1_offset_def)
qed

lemma set_map_filter_conv:
  "set (List.map_filter g rows) = {y. \<exists>x \<in> set rows. g x = Some y}"
  by (induction rows) (auto split: option.splits)

lemma set_channel_times:
  "set (channel_times d c) = {t. \<exists>m \<in> set (messages d). m_channel_id m = c \<and> m_created_at m = Some t}"
  by (auto simp: channel_times_def set_map_filter_conv split: if_splits)

lemma lower_bound_sorted:
  assumes "sort (channel_times d c) = ts" and "sorted_wrt (<) ts" and "k < length ts"
  shows "lower_bound d c (Some (ts ! k)) h = (if nat h \<le> k then Some (ts ! (k - nat h)) else None)"
proof -
  have "sort (filter (\<lambda>t. t \<le> ts ! k) (channel_times d c)) = filter (\<lambda>t. t \<le> ts ! k) ts"
    using assms(1) filter_sort[of "\<lambda>t. t \<le> ts ! k" "\<lambda>x. x" "channel_times d c"] by simp
  also have "\<dots> = take (Suc k) ts"
    using assms by (simp add: strict_filter_le)
  finally have cand: "sort (filter (\<lambda>t. t \<le> ts ! k) (channel_times d c)) = take (Suc k) ts" .
  have "lower_bound d c (Some (ts ! k)) h = limit1_offset h (rev (take (Suc k) ts))"
    by (simp add: lower_bound_def sql_le_def cand)
  also have "\<dots> = (if nat h \<le> k then Some (ts ! (k - nat h)) else None)"
  proof (cases "nat h \<le> k")
    case True
    have len: "length (take (Suc k) ts) = Suc k"
      using assms(3) by simp
    have "rev (take (Suc k) ts) ! nat h = take (Suc k) ts ! (Suc k - Suc (nat h))"
      using True len by (simp add: rev_nth)
    also have "\<dots> = ts ! (k - nat h)"
      by simp
    finally show ?thesis
      using True len by (simp add: limit1_offset_nth)
  next
    case False
    then show ?thesis
      using assms(3) by (simp add: limit1_offset_nth)
  qed
  finally show ?thesis .
qed

lemma upper_bound_sorted:
  assumes "sort (channel_times d c) = ts" and "sorted_wrt (<) ts" and "k < length ts"
  shows "upper_bound d c (Some (ts ! k)) h
         = (if k + nat h < length ts then Some (ts ! (k + nat h)) else None)"
proof -
  have "sort (filter (\<lambda>t. ts ! k \<le> t) (channel_times d c)) = filter (\<lambda>t. ts ! k \<le> t) ts"
    using assms(1) filter_sort[of "\<lambda>t. ts ! k \<le> t" "\<lambda>x. x" "channel_times d c"] by simp
  also have "\<dots> = drop k ts"
    using assms by (simp add: strict_filter_ge)
  finally have cand: "sort (filter (\<lambda>t. ts ! k \<le> t) (channel_times d c)) = drop k ts" .
  have "upper_bound d c (Some (ts ! k)) h = limit1_offset h (drop k ts)"
    by (simp add: upper_bound_def sql_le_def cand)
  also have "\<dots> = (if k + nat h < length ts then Some (ts ! (k + nat h)) else None)"
    using assms(3) by (auto simp: limit1_offset_nth)
  finally show ?thesis .
qed

lemma map_insort_key: "map f (insort_key f x xs) = insort (f x) (map f xs)"
  by (induction xs) simp_all

lemma map_sort_key: "map f (sort_key f xs) = sort (map f xs)"
  by (induction xs) (simp_all add: map_insort_key)


lemma m_created_at_join_names: "m_created_at (j_message (join_names d m)) = m_created_at m"
  by (simp add: join_names_def Let_def)

lemma j_message_join_names: "j_message (join_names d m) = m"
  by (simp add: join_names_def Let_def)

lemma distinct_selected_times:
  assumes "distinct (List.map_filter (\<lambda>m. if m_channel_id m = c then m_created_at m else None) rows)"
  shows "distinct (map m_created_at
           (filter (\<lambda>m. m_channel_id m = c \<and> sql_le lo (m_created_at m) \<and> R m) rows))"
  using assms
proof (induction rows)
  case Nil
  then show ?case by simp
next
  case (Cons m rows)
  show ?case
  proof (cases "m_channel_id m = c \<and> sql_le lo (m_created_at m) \<and> R m")
    case True
    then obtain t where t: "m_created_at m = Some t"
      by (auto simp: sql_le_def split: option.splits)
    from Cons.prems True t
    have notin: "t \<notin> set (List.map_filter (\<lambda>m. if m_channel_id m = c then m_created_at m else None) rows)"
      and rest: "distinct (List.map_filter (\<lambda>m. if m_channel_id m = c then m_created_at m else None) rows)"
      by simp_all
    have "Some t \<notin> set (map m_created_at
              (filter (\<lambda>m. m_channel_id m = c \<and> sql_le lo (m_created_at m) \<and> R m) rows))"
      using notin by (auto simp: set_map_filter_conv)
    with True t Cons.IH[OF rest] show ?thesis by simp
  next
    case False
    from Cons.prems have "distinct (List.map_filter (\<lambda>m. if m_channel_id m = c then m_created_at m else None) rows)"
      by (auto split: option.splits if_splits)
    with False Cons.IH show ?thesis by auto
  qed
qed

lemma getContext_times_window:
  assumes ts: "sort (channel_times d c) = ts" "sorted_wrt (<) ts" "k < length ts"
    and tg: "find (\<lambda>m. m_id m = mid) (messages d) = Some target" "m_created_at target = Some (ts ! k)"
    and fit: "nat (w div 2) \<le> k" "k + nat (w div 2) < length ts"
  shows "map (m_created_at \<circ> j_message) (getContext d c mid w)
         = map Some (take (Suc (2 * nat (w div 2))) (drop (k - nat (w div 2)) ts))"
proof -
  let ?h = "nat (w div 2)"
  let ?a = "k - ?h" and ?b = "k + ?h"
  let ?Q = "\<lambda>m. m_channel_id m = c \<and> sql_le (Some (ts ! ?a)) (m_created_at m)
                 \<and> sql_le (m_created_at m) (Some (ts ! ?b))"
  have lo: "lower_bound d c (Some (ts ! k)) (w div 2) = Some (ts ! ?a)"
    using lower_bound_sorted[OF ts, of "w div 2"] fit by simp
  have hi: "upper_bound d c (Some (ts ! k)) (w div 2) = Some (ts ! ?b)"
    using upper_bound_sorted[OF ts, of "w div 2"] fit by simp
  have res: "getContext d c mid w
             = map (join_names d) (sort_key m_created_at (filter ?Q (messages d)))"
    by (simp add: getContext_def tg lo hi Let_def)
  have "map (m_created_at \<circ> j_message) (getContext d c mid w)
        = map m_created_at (sort_key m_created_at (filter ?Q (messages d)))"
    by (simp add: res m_created_at_join_names o_def)
  also have "\<dots> = sort (map m_created_at (filter ?Q (messages d)))"
    by (rule map_sort_key)
  also have "\<dots> = map Some (take (Suc (2 * ?h)) (drop ?a ts))"
  proof (rule sorted_distinct_set_unique)
    show "sorted (sort (map m_created_at (filter ?Q (messages d))))"
      by simp
    have "distinct (channel_times d c)"
      using ts(1,2) by (metis distinct_sort strict_sorted_iff)
    then show "distinct (sort (map m_created_at (filter ?Q (messages d))))"
      using distinct_selected_times[of c "messages d" "Some (ts ! ?a)"
              "\<lambda>m. sql_le (m_created_at m) (Some (ts ! ?b))"]
      by (simp add: channel_times_def)
    have sd: "sorted (take (Suc (2 * ?h)) (drop ?a ts))" "distinct (take (Suc (2 * ?h)) (drop ?a ts))"
      using ts(2) by (simp_all add: strict_sorted_iff)
    show "sorted (map Some (take (Suc (2 * ?h)) (drop ?a ts)))"
      using sd(1) by (simp add: sorted_map sorted_wrt_iff_nth_less)
    show "distinct (map Some (take (Suc (2 * ?h)) (drop ?a ts)))"
      using sd(2) by (simp add: distinct_map)
    have between: "filter (\<lambda>t. ts ! ?a \<le> t \<and> t \<le> ts ! ?b) ts = take (Suc (2 * ?h)) (drop ?a ts)"
      using strict_filter_between[of ts ?a ?b] ts(2) fit
      by (simp add: Suc_diff_le mult_2)
    have "set (map m_created_at (filter ?Q (messages d)))
          = Some ` {t \<in> set (channel_times d c). ts ! ?a \<le> t \<and> t \<le> ts ! ?b}"
      (is "?L = ?R")
    proof (intro equalityI subsetI)
      fix x assume "x \<in> ?L"
      then obtain m where m: "m \<in> set (messages d)" "?Q m" "x = m_created_at m"
        by auto
      then obtain t where t: "m_created_at m = Some t" "ts ! ?a \<le> t" "t \<le> ts ! ?b"
        by (auto simp: sql_le_def split: option.splits)
      with m have "t \<in> set (channel_times d c)"
        by (auto simp: set_channel_times)
      with m t show "x \<in> ?R" by simp
    next
      fix x assume "x \<in> ?R"
      then obtain t m where x: "x = Some t" "ts ! ?a \<le> t" "t \<le> ts ! ?b"
        and m: "m \<in> set (messages d)" "m_channel_id m = c" "m_created_at m = Some t"
        by (auto simp: set_channel_times)
      then have "?Q m" by (simp add: sql_le_def)
      with m x show "x \<in> ?L" by force
    qed
    then have "set (sort (map m_created_at (filter ?Q (messages d))))
          = Some ` {t \<in> set (channel_times d c). ts ! ?a \<le> t \<and> t \<le> ts ! ?b}"
      by simp
    also have "set (channel_times d c) = set ts"
      using ts(1) by (metis set_sort)
    also have "Some ` {t \<in> set ts. ts ! ?a \<le> t \<and> t \<le> ts ! ?b}
               = set (map Some (filter (\<lambda>t. ts ! ?a \<le> t \<and> t \<le> ts ! ?b) ts))"
      by auto
    finally show "set (sort (map m_created_at (filter ?Q (messages d))))
                  = set (map Some (take (Suc (2 * ?h)) (drop ?a ts)))"
      by (simp only: between)
  qed
  finally show ?thesis .
qed

lemma sql_le_None: "sql_le None x = False" "sql_le x None = False"
  by (simp_all add: sql_le_def split: option.splits)

lemma count_channel_side:
  "length (filter P (List.map_filter (\<lambda>m. if m_channel_id m = c then m_created_at m else None) rows))
   = length (filter (\<lambda>m. m_channel_id m = c \<and> (case m_created_at m of None \<Rightarrow> False | Some t \<Rightarrow> P t)) rows)"
  by (induction rows) (auto split: option.splits)

lemma getContext_lower_short:
  assumes "find (\<lambda>m. m_id m = mid) (messages d) = Some target"
    and "int (length (filter (\<lambda>m. m_channel_id m = c \<and> sql_le (m_created_at m) (m_created_at target))
                (messages d))) \<le> w div 2"
  shows "getContext d c mid w = []"
proof -
  have "length (filter (\<lambda>t. sql_le (Some t) (m_created_at target)) (channel_times d c))
        = length (filter (\<lambda>m. m_channel_id m = c \<and> sql_le (m_created_at m) (m_created_at target))
                (messages d))"
    unfolding channel_times_def count_channel_side
    by (rule arg_cong[where f=length], rule filter_cong) (auto simp: sql_le_def split: option.splits)
  with assms(2) have "lower_bound d c (m_created_at target) (w div 2) = None"
    by (simp add: lower_bound_def limit1_offset_nth)
  then show ?thesis
    by (simp add: getContext_def assms(1) Let_def sql_le_None)
qed

lemma getContext_upper_short:
  assumes "find (\<lambda>m. m_id m = mid) (messages d) = Some target"
    and "int (length (filter (\<lambda>m. m_channel_id m = c \<and> sql_le (m_created_at target) (m_created_at m))
                (messages d))) \<le> w div 2"
  shows "getContext d c mid w = []"
proof -
  have "length (filter (\<lambda>t. sql_le (m_created_at target) (Some t)) (channel_times d c))
        = length (filter (\<lambda>m. m_channel_id m = c \<and> sql_le (m_created_at target) (m_created_at m))
                (messages d))"
    unfolding channel_times_def count_channel_side
    by (rule arg_cong[where f=length], rule filter_cong) (auto simp: sql_le_def split: option.splits)
  with assms(2) have "upper_bound d c (m_created_at target) (w div 2) = None"
    by (simp add: upper_bound_def limit1_offset_nth)
  then show ?thesis
    by (simp add: getContext_def assms(1) Let_def sql_le_None)
qed


lemma getContext_no_lower:
  assumes "find (\<lambda>m. m_id m = mid) (messages d) = Some target"
    and "lower_bound d c (m_created_at target) (w div 2) = None"
  shows "getContext d c mid w = []"
  using assms by (simp add: getContext_def Let_def sql_le_None)

text \<open>
  C2, as the code has it.  Let a channel have its created-at values, in increasing order,
  \<open>t1 < ... < t21\<close> (the list \<open>ts\<close>; \<open>ts ! 10\<close> is \<open>t11\<close>).  With window 10 and the target at
  \<open>t11\<close> the query returns eleven rows of the channel, at \<open>t6\<close> .. \<open>t16\<close> in ascending
  order: the target, the five before it and the five after it.  With the target at \<open>t2\<close>
  it returns fewer than ten rows, and none later than \<open>t7\<close>, the fifth after the target:
  the side that is short is not made up for from the other side.
\<close>

theorem getContext_window_of_21:
  assumes "sorted_wrt (<) ts" and "length ts = 21"
    and "sort (channel_times d c) = ts"
    and "find (\<lambda>m. m_id m = mid11) (messages d) = Some tg11"
    and "m_created_at tg11 = Some (ts ! 10)"
    and "find (\<lambda>m. m_id m = mid2) (messages d) = Some tg2"
    and "m_created_at tg2 = Some (ts ! 1)"
  shows "map (m_created_at \<circ> j_message) (getContext d c mid11 10) = map Some (take 11 (drop 5 ts))
       \<and> length (getContext d c mid11 10) = 11
       \<and> (\<forall>r \<in> set (getContext d c mid11 10).
             j_message r \<in> set (messages d) \<and> m_channel_id (j_message r) = c)
       \<and> length (getContext d c mid2 10) < 10
       \<and> (\<forall>r \<in> set (getContext d c mid2 10).
             \<exists>t. m_created_at (j_message r) = Some t \<and> t \<le> ts ! 6)"
proof -
  have win: "map (m_created_at \<circ> j_message) (getContext d c mid11 10)
             = map Some (take 11 (drop 5 ts))"
    using getContext_times_window[OF assms(3) assms(1) _ assms(4) assms(5), of 10] assms(2)
    by simp
  have "length (map (m_created_at \<circ> j_message) (getContext d c mid11 10)) = 11"
    unfolding win using assms(2) by simp
  then have len: "length (getContext d c mid11 10) = 11"
    by simp
  have mem: "\<forall>r \<in> set (getContext d c mid11 10).
               j_message r \<in> set (messages d) \<and> m_channel_id (j_message r) = c"
    by (auto simp: getContext_def assms(4) Let_def j_message_join_names)
  have "lower_bound d c (Some (ts ! 1)) (10 div 2) = None"
    using lower_bound_sorted[OF assms(3) assms(1), of 1 "10 div 2"] assms(2) by simp
  then have none: "getContext d c mid2 10 = []"
    using getContext_no_lower[OF assms(6), of c 10] assms(7) by simp
  then have fewer: "length (getContext d c mid2 10) < 10"
    and near: "\<forall>r \<in> set (getContext d c mid2 10).
                 \<exists>t. m_created_at (j_message r) = Some t \<and> t \<le> ts ! 6"
    by simp_all
  from win len mem fewer near show ?thesis by blast
qed

theorem getContext_window_of_21_witness:
  "sorted_wrt (<) ctx_stamps \<and> length ctx_stamps = 21
   \<and> sort (channel_times ctx_db ''c1'') = ctx_stamps
   \<and> find (\<lambda>m. m_id m = ''m11'') (messages ctx_db) = Some (messages ctx_db ! 10)
   \<and> m_created_at (messages ctx_db ! 10) = Some (ctx_stamps ! 10)
   \<and> find (\<lambda>m. m_id m = ''m02'') (messages ctx_db) = Some (messages ctx_db ! 1)
   \<and> m_created_at (messages ctx_db ! 1) = Some (ctx_stamps ! 1)
   \<and> map (m_created_at \<circ> j_message) (getContext ctx_db ''c1'' ''m11'' 10)
       = map Some [''t06'', ''t07'', ''t08'', ''t09'', ''t10'', ''t11'', ''t12'', ''t13'', ''t14'',
                   ''t15'', ''t16'']
   \<and> length (getContext ctx_db ''c1'' ''m11'' 10) = 11
   \<and> length (getContext ctx_db ''c1'' ''m02'' 10) < 10"
proof -
  have h1: "sorted_wrt (<) ctx_stamps" by code_simp
  have h2: "length ctx_stamps = 21" by code_simp
  have h3: "sort (channel_times ctx_db ''c1'') = ctx_stamps" by code_simp
  have h4: "find (\<lambda>m. m_id m = ''m11'') (messages ctx_db) = Some (messages ctx_db ! 10)"
    by code_simp
  have h5: "m_created_at (messages ctx_db ! 10) = Some (ctx_stamps ! 10)" by code_simp
  have h6: "find (\<lambda>m. m_id m = ''m02'') (messages ctx_db) = Some (messages ctx_db ! 1)"
    by code_simp
  have h7: "m_created_at (messages ctx_db ! 1) = Some (ctx_stamps ! 1)" by code_simp
  have w: "take 11 (drop 5 ctx_stamps)
           = [''t06'', ''t07'', ''t08'', ''t09'', ''t10'', ''t11'', ''t12'', ''t13'', ''t14'',
              ''t15'', ''t16'']"
    by code_simp
  from getContext_window_of_21[OF h1 h2 h3 h4 h5 h6 h7]
  show ?thesis
    using h1 h2 h3 h4 h5 h6 h7 w by simp
qed

text \<open>
  The claim C2 as stated asks for the ten messages \<open>m06\<close> .. \<open>m15\<close>; the query returns
  eleven rows, \<open>m06\<close> .. \<open>m16\<close>.
\<close>

theorem getContext_ten_rows_counterexample:
  "map (m_id \<circ> j_message) (getContext ctx_db ''c1'' ''m11'' 10)
     \<noteq> [''m06'', ''m07'', ''m08'', ''m09'', ''m10'', ''m11'', ''m12'', ''m13'', ''m14'', ''m15'']"
  by code_simp

text \<open>
  C10.  When the target is stored in the channel and the channel has at most
  \<open>windowSize div 2\<close> rows with created-at at or before the target's, or at most that many
  at or after it, the query returns the empty list.
\<close>

theorem getContext_empty_near_boundary:
  assumes "find (\<lambda>m. m_id m = messageId) (messages d) = Some target"
    and "m_channel_id target = channelId"
    and "int (length (filter (\<lambda>m. m_channel_id m = channelId
                                   \<and> sql_le (m_created_at m) (m_created_at target)) (messages d)))
           \<le> windowSize div 2
         \<or> int (length (filter (\<lambda>m. m_channel_id m = channelId
                                   \<and> sql_le (m_created_at target) (m_created_at m)) (messages d)))
           \<le> windowSize div 2"
  shows "getContext d channelId messageId windowSize = []"
  using assms(3) getContext_lower_short[OF assms(1)] getContext_upper_short[OF assms(1)]
  by blast

theorem getContext_empty_near_boundary_witness:
  "find (\<lambda>m. m_id m = ''m02'') (messages ctx_db) = Some (messages ctx_db ! 1)
   \<and> m_channel_id (messages ctx_db ! 1) = ''c1''
   \<and> int (length (filter (\<lambda>m. m_channel_id m = ''c1''
                \<and> sql_le (m_created_at m) (m_created_at (messages ctx_db ! 1))) (messages ctx_db)))
       \<le> 10 div 2
   \<and> getContext ctx_db ''c1'' ''m02'' 10 = []"
proof -
  have h1: "find (\<lambda>m. m_id m = ''m02'') (messages ctx_db) = Some (messages ctx_db ! 1)"
    by code_simp
  have h2: "m_channel_id (messages ctx_db ! 1) = ''c1''"
    by code_simp
  have h3: "int (length (filter (\<lambda>m. m_channel_id m = ''c1''
                \<and> sql_le (m_created_at m) (m_created_at (messages ctx_db ! 1))) (messages ctx_db)))
            \<le> 10 div 2"
    by code_simp
  from getContext_empty_near_boundary[OF h1 h2 disjI1[OF h3]]
  show ?thesis
    using h1 h2 h3 by simp
qed

end
